theory Spec2Isabelle
  imports Complex_Main
begin

section \<open>JavaScript strings and the regular expressions of the content script\<close>

text \<open>
  A JavaScript string is a sequence of UTF-16 code units; \<open>length\<close> counts code units.
  Text of the page and of translations is a \<open>jsstring\<close>. Tag names, class names and
  the other ASCII constants of the source are Isabelle strings.
\<close>

type_synonym jsstring = "nat list"

definition js :: "string \<Rightarrow> jsstring" where
  \<comment> \<open>an ASCII literal of the source as code units\<close>
  "js s = map of_char s"

definition isSpace :: "nat \<Rightarrow> bool" where
  \<comment> \<open>the class \<open>\s\<close> of ECMAScript: WhiteSpace and LineTerminator\<close>
  "isSpace c \<longleftrightarrow>
     c = 9 \<or> c = 10 \<or> c = 11 \<or> c = 12 \<or> c = 13 \<or> c = 32 \<or> c = 160 \<or> c = 5760 \<or>
     (8192 \<le> c \<and> c \<le> 8202) \<or> c = 8232 \<or> c = 8233 \<or> c = 8239 \<or> c = 8287 \<or>
     c = 12288 \<or> c = 65279"

text \<open>
  \<open>s.split(/\s+/)\<close> and \<open>s.split(/(\s+)/)\<close>: the string is cut at every maximal run of
  whitespace; with the capture group the runs themselves are kept between the pieces.
  The first and the last piece are empty when the string starts or ends with whitespace,
  and the empty string gives one empty piece.
\<close>

function split_ws :: "bool \<Rightarrow> jsstring \<Rightarrow> jsstring list" where
  "split_ws capture s =
     (let piece = takeWhile (\<lambda>c. \<not> isSpace c) s;
          rest = dropWhile (\<lambda>c. \<not> isSpace c) s
      in if rest = [] then [piece]
         else piece # (if capture then [takeWhile isSpace rest] else [])
                @ split_ws capture (dropWhile isSpace rest))"
  by pat_completeness auto
termination
proof (relation "measure (\<lambda>(capture, s). length s)", simp, clarsimp)
  fix s :: jsstring
  fix x
  let ?rest = "dropWhile (\<lambda>c. \<not> isSpace c) s"
  assume "x \<in> set s" "isSpace x"
  then have ne: "?rest \<noteq> []"
    by (auto simp: dropWhile_eq_Nil_conv)
  then obtain a as where eq: "?rest = a # as"
    by (cases ?rest) auto
  from hd_dropWhile [OF ne] eq have "isSpace a"
    by simp
  then have "length (dropWhile isSpace ?rest) \<le> length as"
    by (simp add: eq length_dropWhile_le)
  also have "\<dots> < length ?rest"
    by (simp add: eq)
  also have "\<dots> \<le> length s"
    by (rule length_dropWhile_le)
  finally show "length (dropWhile isSpace ?rest) < length s" .
qed

declare split_ws.simps [simp del]

text \<open>\<open>s.trim()\<close> removes whitespace at both ends.\<close>

definition trim :: "jsstring \<Rightarrow> jsstring" where
  "trim s = rev (dropWhile isSpace (rev (dropWhile isSpace s)))"

text \<open>\<open>s.replace(/\s+/g, ' ')\<close>: every maximal run of whitespace becomes one space.\<close>

fun collapse_ws :: "jsstring \<Rightarrow> jsstring" where
  "collapse_ws [] = []"
| "collapse_ws [c] = (if isSpace c then [32] else [c])"
| "collapse_ws (c # d # cs) =
     (if isSpace c then (if isSpace d then collapse_ws (d # cs) else 32 # collapse_ws (d # cs))
      else c # collapse_ws (d # cs))"


text \<open>
  \<open>toLowerCase\<close> depends on the Unicode case tables of the engine, which are not
  part of the repository: it is a parameter.
\<close>

definition normalizeText :: "(jsstring \<Rightarrow> jsstring) \<Rightarrow> jsstring \<Rightarrow> jsstring" where
  \<comment> \<open>\<open>text.replace(/\s+/g, ' ').trim().toLowerCase()\<close>\<close>
  "normalizeText toLowerCase text = toLowerCase (trim (collapse_ws text))"

subsection \<open>Unicode property escapes\<close>

text \<open>
  With the \<open>u\<close> flag a regular expression reads the string code point by code point:
  a high surrogate followed by a low surrogate is one code point, every other code unit
  is a code point of its own. The general categories \<open>L\<close>, \<open>Pd\<close> and \<open>M\<close> come from the
  Unicode tables of the engine: they are parameters beyond ASCII. Within ASCII the
  letters are A-Z and a-z, the only dash is the hyphen-minus, and there is no mark;
  surrogate code points have category \<open>Cs\<close>, so they are in none of the three.
\<close>

record unicode =
  cat_L :: "nat \<Rightarrow> bool"
  cat_Pd :: "nat \<Rightarrow> bool"
  cat_M :: "nat \<Rightarrow> bool"

definition isHigh :: "nat \<Rightarrow> bool" where
  "isHigh c \<longleftrightarrow> 55296 \<le> c \<and> c \<le> 56319"

definition isLow :: "nat \<Rightarrow> bool" where
  "isLow c \<longleftrightarrow> 56320 \<le> c \<and> c \<le> 57343"

definition isSurrogate :: "nat \<Rightarrow> bool" where
  "isSurrogate c \<longleftrightarrow> isHigh c \<or> isLow c"

definition pairCodePoint :: "nat \<Rightarrow> nat \<Rightarrow> nat" where
  "pairCodePoint h l = 65536 + (h - 55296) * 1024 + (l - 56320)"

fun codePoints :: "jsstring \<Rightarrow> nat list" where
  "codePoints (h # l # rest) =
     (if isHigh h \<and> isLow l then pairCodePoint h l # codePoints rest
      else h # codePoints (l # rest))"
| "codePoints [c] = [c]"
| "codePoints [] = []"

definition pL :: "unicode \<Rightarrow> nat \<Rightarrow> bool" where
  \<comment> \<open>\<open>\p{L}\<close>\<close>
  "pL U c \<longleftrightarrow>
     (if c < 128 then (65 \<le> c \<and> c \<le> 90) \<or> (97 \<le> c \<and> c \<le> 122)
      else \<not> isSurrogate c \<and> cat_L U c)"

definition pPd :: "unicode \<Rightarrow> nat \<Rightarrow> bool" where
  \<comment> \<open>\<open>\p{Pd}\<close>\<close>
  "pPd U c \<longleftrightarrow> (if c < 128 then c = 45 else \<not> isSurrogate c \<and> cat_Pd U c)"

definition pM :: "unicode \<Rightarrow> nat \<Rightarrow> bool" where
  \<comment> \<open>\<open>\p{M}\<close>\<close>
  "pM U c \<longleftrightarrow> (if c < 128 then False else \<not> isSurrogate c \<and> cat_M U c)"

section \<open>Text similarity\<close>

text \<open>
  \<open>new Set(xs)\<close> keeps the first occurrence of every value, in insertion order;
  \<open>size\<close> is the length of that list and \<open>has\<close> is membership.
\<close>

fun newSet_from :: "'a list \<Rightarrow> 'a list \<Rightarrow> 'a list" where
  "newSet_from acc [] = acc"
| "newSet_from acc (x # xs) = newSet_from (if x \<in> set acc then acc else acc @ [x]) xs"

definition newSet :: "'a list \<Rightarrow> 'a list" where
  "newSet xs = newSet_from [] xs"

fun countIntersection :: "jsstring list \<Rightarrow> jsstring list \<Rightarrow> nat \<Rightarrow> nat" where
  \<comment> \<open>\<open>for (const word of wordsA) if (wordsB.has(word)) intersection++\<close>\<close>
  "countIntersection [] wordsB intersection = intersection"
| "countIntersection (word # rest) wordsB intersection =
     countIntersection rest wordsB (if word \<in> set wordsB then intersection + 1 else intersection)"

text \<open>
  The quotient \<open>intersection / union\<close> of the source is an IEEE double; it is modelled
  as the exact quotient. Both operands are counts of words of one string.
\<close>

definition textSimilarity :: "jsstring \<Rightarrow> jsstring \<Rightarrow> real" where
  "textSimilarity a b =
     (let wordsA = newSet (filter (\<lambda>w. length w > 2) (split_ws False a));
          wordsB = newSet (filter (\<lambda>w. length w > 2) (split_ws False b))
      in if length wordsA = 0 \<or> length wordsB = 0 then 0
         else let intersection = countIntersection wordsA wordsB 0;
                  union = int (length wordsA) + int (length wordsB) - int intersection
              in real intersection / real_of_int union)"

text \<open>
  The words the specification compares: the pieces of the string between runs of
  whitespace that are longer than two code units.
\<close>

definition longWords :: "jsstring \<Rightarrow> jsstring set" where
  "longWords a = {w \<in> set (split_ws False a). length w > 2}"

section \<open>Rendering a translated block\<close>

text \<open>
  \<open>renderTranslatedBlock\<close> empties the element and appends one child per non-empty
  fragment: a \<open>span\<close> of class \<open>vakya-word\<close> with the fragment as text, the lookup key in
  \<open>dataset.word\<close> and the click listener \<open>handleWordClick\<close>, or a plain text node.
\<close>

datatype child =
  TextNode jsstring
| WordSpan (spanText: jsstring) (spanWord: jsstring)

definition hasLetter :: "unicode \<Rightarrow> jsstring \<Rightarrow> bool" where
  \<comment> \<open>\<open>/[\p{L}]/u.test(fragment)\<close>\<close>
  "hasLetter U fragment = list_ex (pL U) (codePoints fragment)"

definition keyChar :: "unicode \<Rightarrow> nat \<Rightarrow> bool" where
  \<comment> \<open>the class \<open>[\p{L}\p{Pd}\p{M}']\<close>\<close>
  "keyChar U c \<longleftrightarrow> pL U c \<or> pPd U c \<or> pM U c \<or> c = 39"

fun stripKey :: "unicode \<Rightarrow> jsstring \<Rightarrow> jsstring" where
  \<comment> \<open>\<open>fragment.replace(/[^\p{L}\p{Pd}\p{M}']/gu, '')\<close>\<close>
  "stripKey U (h # l # rest) =
     (if isHigh h \<and> isLow l
      then (if keyChar U (pairCodePoint h l) then [h, l] else []) @ stripKey U rest
      else (if keyChar U h then [h] else []) @ stripKey U (l # rest))"
| "stripKey U [c] = (if keyChar U c then [c] else [])"
| "stripKey U [] = []"

fun renderFragments :: "unicode \<Rightarrow> jsstring list \<Rightarrow> child list" where
  "renderFragments U [] = []"
| "renderFragments U (fragment # rest) =
     (if fragment = [] then renderFragments U rest
      else if hasLetter U fragment
        then WordSpan fragment (stripKey U fragment) # renderFragments U rest
        else TextNode fragment # renderFragments U rest)"

definition renderTranslatedBlock :: "unicode \<Rightarrow> jsstring \<Rightarrow> child list" where
  "renderTranslatedBlock U text = renderFragments U (split_ws True text)"

fun childText :: "child \<Rightarrow> jsstring" where
  "childText (TextNode s) = s"
| "childText (WordSpan s w) = s"

text \<open>
  Fragments alternate when each is of the other kind than the one before it: a run
  of whitespace after a word, a word after a run of whitespace.
\<close>

definition startsWithSpace :: "jsstring \<Rightarrow> bool" where
  "startsWithSpace f = (case f of [] \<Rightarrow> False | c # cs \<Rightarrow> isSpace c)"

fun alternating :: "jsstring list \<Rightarrow> bool" where
  "alternating (f # g # rest) =
     (startsWithSpace f \<noteq> startsWithSpace g \<and> alternating (g # rest))"
| "alternating [f] = True"
| "alternating [] = True"

section \<open>The live document and the matcher\<close>

text \<open>
  The matcher only reads the page. The document is a tree of text nodes and elements;
  an element is named by its path from the root element (the list of child positions),
  which is a stable handle while nothing is mutated. Tag names are upper case, as
  \<open>tagName\<close> returns them.
\<close>

datatype node = Text jsstring | Element string "node list"

type_synonym path = "nat list"

fun textContent :: "node \<Rightarrow> jsstring" where
  "textContent (Text s) = s"
| "textContent (Element tag cs) = concat (map textContent cs)"

fun nodeAt :: "node \<Rightarrow> path \<Rightarrow> node option" where
  "nodeAt n [] = Some n"
| "nodeAt (Text s) (i # p) = None"
| "nodeAt (Element tag cs) (i # p) = (if i < length cs then nodeAt (cs ! i) p else None)"

definition tagName :: "node \<Rightarrow> path \<Rightarrow> string" where
  "tagName doc el = (case nodeAt doc el of Some (Element tag cs) \<Rightarrow> tag | _ \<Rightarrow> [])"

definition elTextContent :: "node \<Rightarrow> path \<Rightarrow> jsstring" where
  \<comment> \<open>\<open>el.textContent\<close>\<close>
  "elTextContent doc el = (case nodeAt doc el of Some n \<Rightarrow> textContent n | None \<Rightarrow> [])"

definition parentElement :: "path \<Rightarrow> path option" where
  \<comment> \<open>the parent of the root element is the document, which is not an element\<close>
  "parentElement el = (if el = [] then None else Some (butlast el))"

text \<open>All elements of the document in tree order.\<close>

fun elementPaths :: "node \<Rightarrow> path list"
  and childPaths :: "nat \<Rightarrow> node list \<Rightarrow> path list" where
  "elementPaths (Text s) = []"
| "elementPaths (Element tag cs) = [] # childPaths 0 cs"
| "childPaths i [] = []"
| "childPaths i (c # cs) = map ((#) i) (elementPaths c) @ childPaths (Suc i) cs"

definition querySelectorAll :: "node \<Rightarrow> string list \<Rightarrow> path list" where
  \<comment> \<open>for a selector that is a list of tag names\<close>
  "querySelectorAll doc tags = filter (\<lambda>el. tagName doc el \<in> set tags) (elementPaths doc)"

text \<open>
  \<open>document.body\<close>: the first child of the \<open>html\<close> root element that is a \<open>body\<close> or
  a \<open>frameset\<close>, or null.
\<close>

fun firstBody :: "nat \<Rightarrow> node list \<Rightarrow> path option" where
  "firstBody i [] = None"
| "firstBody i (Text s # cs) = firstBody (Suc i) cs"
| "firstBody i (Element tag cs' # cs) =
     (if tag = ''BODY'' \<or> tag = ''FRAMESET'' then Some [i] else firstBody (Suc i) cs)"

fun documentBody :: "node \<Rightarrow> path option" where
  "documentBody (Text s) = None"
| "documentBody (Element tag cs) = (if tag = ''HTML'' then firstBody 0 cs else None)"

definition blockTags :: "string list" where
  "blockTags = [''P'', ''H1'', ''H2'', ''H3'', ''H4'', ''H5'', ''H6'', ''LI'', ''BLOCKQUOTE'',
                ''DIV'', ''ARTICLE'', ''SECTION'']"

fun hasBlockChild :: "node list \<Rightarrow> bool" where
  \<comment> \<open>the loop over \<open>el.children\<close>\<close>
  "hasBlockChild [] = False"
| "hasBlockChild (Text s # rest) = hasBlockChild rest"
| "hasBlockChild (Element tag cs # rest) =
     (if tag \<in> set blockTags \<and> length (trim (textContent (Element tag cs))) > 30 then True
      else hasBlockChild rest)"

definition isContainerElement :: "node \<Rightarrow> path \<Rightarrow> bool" where
  "isContainerElement doc el =
     (case nodeAt doc el of Some (Element tag cs) \<Rightarrow> hasBlockChild cs | _ \<Rightarrow> False)"

definition candidateTags :: "string list" where
  "candidateTags = [''P'', ''H1'', ''H2'', ''H3'', ''H4'', ''H5'', ''H6'', ''LI'', ''BLOCKQUOTE'',
                    ''TD'', ''TH'', ''FIGCAPTION'', ''DIV'', ''SPAN'']"

text \<open>
  The inner loop over the candidates for one block. \<open>usedElements\<close> is a set of
  elements; the scores are exact quotients.
\<close>

fun scanCandidates ::
  "(jsstring \<Rightarrow> jsstring) \<Rightarrow> node \<Rightarrow> path set \<Rightarrow> jsstring \<Rightarrow> path list \<Rightarrow>
     path option \<Rightarrow> real \<Rightarrow> path option \<times> real" where
  "scanCandidates lc doc usedElements normalizedTarget [] bestMatch bestScore =
     (bestMatch, bestScore)"
| "scanCandidates lc doc usedElements normalizedTarget (el # rest) bestMatch bestScore =
     (if el \<in> usedElements
        then scanCandidates lc doc usedElements normalizedTarget rest bestMatch bestScore
      else if isContainerElement doc el
        then scanCandidates lc doc usedElements normalizedTarget rest bestMatch bestScore
      else let elText = normalizeText lc (elTextContent doc el) in
        if elText = normalizedTarget then (Some el, 1)
        else let similarity = textSimilarity elText normalizedTarget in
          if similarity > 85 / 100 \<and> similarity > bestScore
            then scanCandidates lc doc usedElements normalizedTarget rest (Some el) similarity
            else scanCandidates lc doc usedElements normalizedTarget rest bestMatch bestScore)"

text \<open>
  \<open>while (parent && parent !== document.body) { usedElements.add(parent); parent =
  parent.parentElement }\<close>
\<close>

function markAncestors :: "path option \<Rightarrow> path option \<Rightarrow> path set \<Rightarrow> path set" where
  "markAncestors body None usedElements = usedElements"
| "markAncestors body (Some parent) usedElements =
     (if Some parent = body then usedElements
      else markAncestors body (parentElement parent) (insert parent usedElements))"
  by pat_completeness auto
termination
  by (relation "measure (\<lambda>(body, parent, usedElements).
        case parent of None \<Rightarrow> 0 | Some p \<Rightarrow> Suc (length p))")
     (auto simp: parentElement_def)

fun matchBlocks ::
  "(jsstring \<Rightarrow> jsstring) \<Rightarrow> node \<Rightarrow> path list \<Rightarrow> jsstring list \<Rightarrow> path list \<Rightarrow> path set \<Rightarrow>
     path list" where
  "matchBlocks lc doc candidates [] found usedElements = found"
| "matchBlocks lc doc candidates (targetText # rest) found usedElements =
     (case fst (scanCandidates lc doc usedElements (normalizeText lc targetText) candidates None 0) of
        None \<Rightarrow> matchBlocks lc doc candidates rest found usedElements
      | Some bestMatch \<Rightarrow>
          matchBlocks lc doc candidates rest (found @ [bestMatch])
            (markAncestors (documentBody doc) (parentElement bestMatch)
               (insert bestMatch usedElements)))"

definition findOriginalElementsByText ::
  "(jsstring \<Rightarrow> jsstring) \<Rightarrow> node \<Rightarrow> jsstring list \<Rightarrow> path list" where
  "findOriginalElementsByText lc doc textBlocks =
     matchBlocks lc doc (querySelectorAll doc candidateTags) textBlocks [] {}"

text \<open>An element contains another when its path is a proper prefix of the other's.\<close>

definition isAncestorOf :: "path \<Rightarrow> path \<Rightarrow> bool" where
  "isAncestorOf a d \<longleftrightarrow> length a < length d \<and> take (length a) d = a"

text \<open>
  The words of the specification about one candidate: it is eligible when it is neither
  excluded nor a container; it is an exact match when its normalized text is the
  normalized block text; its score is the similarity of the two normalized texts.
\<close>

definition eligible :: "node \<Rightarrow> path set \<Rightarrow> path \<Rightarrow> bool" where
  "eligible doc usedElements el \<longleftrightarrow> el \<notin> usedElements \<and> \<not> isContainerElement doc el"

definition exactMatch :: "(jsstring \<Rightarrow> jsstring) \<Rightarrow> node \<Rightarrow> jsstring \<Rightarrow> path \<Rightarrow> bool" where
  "exactMatch lc doc normalizedTarget el \<longleftrightarrow>
     normalizeText lc (elTextContent doc el) = normalizedTarget"

definition score :: "(jsstring \<Rightarrow> jsstring) \<Rightarrow> node \<Rightarrow> jsstring \<Rightarrow> path \<Rightarrow> real" where
  "score lc doc normalizedTarget el =
     textSimilarity (normalizeText lc (elTextContent doc el)) normalizedTarget"

text \<open>
  A list of matched elements is separated when no element occurs twice and no element
  is an ancestor of one that comes earlier in the list.
\<close>

definition separated :: "path list \<Rightarrow> bool" where
  "separated found \<longleftrightarrow> distinct found \<and>
     (\<forall>i j. i < j \<and> j < length found \<longrightarrow> \<not> isAncestorOf (found ! j) (found ! i))"

text \<open>
  A small page for concrete evaluation: a \<open>div\<close> that wraps two paragraphs, with a line
  break between them.
\<close>

definition exampleDoc :: node where
  "exampleDoc = Element ''HTML'' [Element ''BODY'' [Element ''DIV''
     [Element ''P'' [Text (js ''Der Hund rennt schnell durch den Park'')],
      Text [10],
      Element ''P'' [Text (js ''Die Katze sitzt ruhig auf dem Sofa'')]]]]"

section \<open>The batch translation pipeline of the background script\<close>

text \<open>
  A translated block, as \<open>translateBatch\<close> returns it and \<open>applyTranslations\<close>
  reads it.
\<close>

record block =
  original :: jsstring
  translated :: jsstring

text \<open>
  What the translation service does with one request is outside the repository. Every
  way in which the body of the \<open>try\<close> in \<open>translateBatch\<close> can end is a reply: \<open>fetch\<close>
  rejects (network failure, or the abort after 120 s), the status is not ok, the body
  is not JSON, there is no message content, the content is not JSON, the parsed value
  has not the expected shape, or there is a list of blocks (empty when the \<open>blocks\<close>
  field is missing). The fields of a parsed block are taken to be strings.
\<close>

datatype reply =
  FetchThrows
| HttpStatus nat
| BodyUnreadable
| EmptyContent
| ContentUnparsable
| BadShape
| Parsed "block list"

definition batchFails :: "reply \<Rightarrow> bool" where
  "batchFails r = (case r of Parsed bs \<Rightarrow> False | _ \<Rightarrow> True)"

definition isDigit :: "nat \<Rightarrow> bool" where
  \<comment> \<open>the class \<open>\d\<close>\<close>
  "isDigit c \<longleftrightarrow> 48 \<le> c \<and> c \<le> 57"

definition stripNumberPrefix :: "jsstring \<Rightarrow> jsstring" where
  \<comment> \<open>\<open>s.replace(/^#\d+:\s*/, '')\<close>\<close>
  "stripNumberPrefix s =
     (case s of
        [] \<Rightarrow> s
      | c # rest \<Rightarrow>
          if c = 35 \<and> takeWhile isDigit rest \<noteq> [] then
            (case dropWhile isDigit rest of
               [] \<Rightarrow> s
             | d # rest' \<Rightarrow> if d = 58 then dropWhile isSpace rest' else s)
          else s)"

record batch_result =
  batch_blocks :: "block list"
  failed :: bool

definition translateBatch :: "jsstring list \<Rightarrow> reply \<Rightarrow> batch_result" where
  "translateBatch blocks r =
     (case r of
        Parsed parsed_blocks \<Rightarrow>
          \<lparr>batch_blocks =
             map (\<lambda>block. \<lparr>original = original block,
                            translated = stripNumberPrefix (translated block)\<rparr>) parsed_blocks,
           failed = False\<rparr>
      | _ \<Rightarrow>
          \<lparr>batch_blocks = map (\<lambda>b. \<lparr>original = b, translated = b\<rparr>) blocks, failed = True\<rparr>)"

fun makeBatches :: "jsstring list \<Rightarrow> jsstring list list" where
  \<comment> \<open>\<open>for (let i = 0; i < blocks.length; i += 2) batches.push(blocks.slice(i, i + 2))\<close>\<close>
  "makeBatches [] = []"
| "makeBatches [b] = [[b]]"
| "makeBatches (b # c # rest) = [b, c] # makeBatches rest"

text \<open>
  \<open>batches.map(async (batch, index) => ...)\<close> under \<open>Promise.all\<close>: the results come back
  in the order of the batches, whatever the order in which the requests finish. The
  reply to batch number \<open>index + 1\<close> is \<open>api (index + 1)\<close>.
\<close>

fun translateAll :: "(nat \<Rightarrow> reply) \<Rightarrow> nat \<Rightarrow> jsstring list list \<Rightarrow> batch_result list" where
  "translateAll api index [] = []"
| "translateAll api index (batch # rest) =
     translateBatch batch (api (index + 1)) # translateAll api (Suc index) rest"

record translation_result =
  blocks :: "block list"
  failedBatches :: nat
  totalBatches :: nat

datatype request_error = MissingApiKey

definition handleTranslationRequest ::
  "jsstring \<Rightarrow> (nat \<Rightarrow> reply) \<Rightarrow> jsstring list \<Rightarrow> request_error + translation_result" where
  "handleTranslationRequest apiKey api payload_blocks =
     (if apiKey = [] then Inl MissingApiKey
      else
        let batches = makeBatches payload_blocks;
            results = translateAll api 0 batches
        in Inr \<lparr>blocks = concat (map batch_blocks results),
                failedBatches = length (filter failed results),
                totalBatches = length batches\<rparr>)"

section \<open>The content script: live elements and the reversible rewrite\<close>

text \<open>
  The rewriter mutates the page, so its elements are objects with an identity: a
  number. The page is a store: the elements in tree order, parents before their
  children, each with its list of child nodes. A child node is a leaf (a text node or a
  word span made by \<open>renderTranslatedBlock\<close>; the text of the page before the
  translation is made of \<open>TextNode\<close> leaves) or a reference to another element. An
  element that no other element refers to is a root: the root of the document, or a
  subtree that a write to \<open>textContent\<close> has detached, which stays alive as long as a
  handle refers to it. A handle that is not in the store denotes an element without
  children.
\<close>

datatype item = Leaf child | Sub nat

type_synonym dom = "(nat \<times> item list) list"

fun wellFormed :: "dom \<Rightarrow> bool" where
  \<comment> \<open>every element occurs once, and children come after their parent\<close>
  "wellFormed [] = True"
| "wellFormed ((i, items) # rest) =
     (i \<notin> fst ` set rest \<and>
      list_all (\<lambda>it. case it of Leaf c \<Rightarrow> True | Sub r \<Rightarrow> r \<in> fst ` set rest) items \<and>
      wellFormed rest)"

definition childNodes :: "dom \<Rightarrow> nat \<Rightarrow> item list" where
  "childNodes p el = (case map_of p el of Some items \<Rightarrow> items | None \<Rightarrow> [])"

fun itemText :: "(nat \<Rightarrow> jsstring) \<Rightarrow> item \<Rightarrow> jsstring" where
  "itemText texts (Leaf c) = childText c"
| "itemText texts (Sub r) = texts r"

fun getTextContent :: "dom \<Rightarrow> nat \<Rightarrow> jsstring" where
  \<comment> \<open>\<open>el.textContent\<close>: the texts of the child nodes, in order\<close>
  "getTextContent [] = (\<lambda>el. [])"
| "getTextContent ((i, items) # rest) =
     (getTextContent rest)(i := concat (map (itemText (getTextContent rest)) items))"

fun itemDescendants :: "(nat \<Rightarrow> nat set) \<Rightarrow> item \<Rightarrow> nat set" where
  "itemDescendants below (Leaf c) = {}"
| "itemDescendants below (Sub r) = insert r (below r)"

fun descendants :: "dom \<Rightarrow> nat \<Rightarrow> nat set" where
  "descendants [] = (\<lambda>el. {})"
| "descendants ((i, items) # rest) =
     (descendants rest)(i := \<Union> (set (map (itemDescendants (descendants rest)) items)))"

definition contains :: "dom \<Rightarrow> nat \<Rightarrow> nat \<Rightarrow> bool" where
  \<comment> \<open>\<open>a\<close> is an ancestor of \<open>d\<close>\<close>
  "contains p a d \<longleftrightarrow> d \<in> descendants p a"

definition replaceChildren :: "nat \<Rightarrow> item list \<Rightarrow> dom \<Rightarrow> dom" where
  \<comment> \<open>the element gets new child nodes; its old children are no longer referred to\<close>
  "replaceChildren el new p =
     (if el \<in> fst ` set p
      then map (\<lambda>(i, items). if i = el then (i, new) else (i, items)) p
      else p @ [(el, new)])"

record session =
  elements :: "nat list"
  originals :: "jsstring list"

datatype bar_message =
  PageAlreadyTranslated
| Translated nat
| TranslatedWithFailures nat nat nat
| OriginalRestored

record floating_bar =
  message :: bar_message
  bar_type :: string
  restoreButton :: bool

record overlay =
  overlay_type :: string
  title :: string

datatype tooltip = OriginalTextTooltip jsstring | WordTooltip jsstring

text \<open>
  The module state of the content script, and of the page what the script touches: the
  forest, and per element its class list, its \<open>dataset\<close> and its listeners (event type
  and handler name). The overlay, the floating bar and the tooltip are elements that the
  script appends to the body; they are the fields \<open>activeOverlay\<close>,
  \<open>activeFloatingBar\<close> and \<open>activeTooltip\<close>. A pending \<open>setTimeout\<close> is a pair of the
  delay and the callback. The script is modelled in its later version, which tracks the
  pointer; the earlier one differs in \<open>applyTranslations\<close> and \<open>restoreOriginal\<close>
  only by two more listeners (\<open>mouseenter\<close>, \<open>mouseleave\<close>) that are added to and
  removed from every translated element.
\<close>

record state =
  page :: dom
  classList :: "nat \<Rightarrow> string set"
  dataset :: "nat \<Rightarrow> string \<Rightarrow> jsstring option"
  listeners :: "nat \<Rightarrow> (string \<times> string) set"
  bodyClassList :: "string set"
  translationState :: "session option"
  activeTooltip :: "tooltip option"
  activeOverlay :: "overlay option"
  activeFloatingBar :: "floating_bar option"
  currentClickedWord :: "(nat \<times> nat) option"
  browserTranslator :: "nat option"
  browserTranslatorInitialized :: bool
  translatorLanguages :: "(string \<times> string) option"
  isModifierHeld :: bool
  hoveredSentence :: "nat option"
  timers :: "(nat \<times> string) list"

definition hideTooltip :: "state \<Rightarrow> state" where
  "hideTooltip s = s\<lparr>activeTooltip := None, currentClickedWord := None\<rparr>"

definition hideOverlay :: "state \<Rightarrow> state" where
  "hideOverlay s = s\<lparr>activeOverlay := None\<rparr>"

definition showOverlay :: "string \<Rightarrow> string \<Rightarrow> state \<Rightarrow> state" where
  \<comment> \<open>the subtitle and the buttons of the overlay are not modelled\<close>
  "showOverlay type ttl s = (hideOverlay s)\<lparr>activeOverlay := Some \<lparr>overlay_type = type, title = ttl\<rparr>\<rparr>"

definition hideFloatingBar :: "state \<Rightarrow> state" where
  "hideFloatingBar s = s\<lparr>activeFloatingBar := None\<rparr>"

definition showFloatingBar :: "bar_message \<Rightarrow> string \<Rightarrow> state \<Rightarrow> state" where
  "showFloatingBar msg type s =
     (let s1 = hideFloatingBar s;
          hasTranslation = (translationState s1 \<noteq> None);
          s2 = s1\<lparr>activeFloatingBar :=
                    Some \<lparr>message = msg, bar_type = type, restoreButton = hasTranslation\<rparr>\<rparr>
      in if type = ''success'' \<and> \<not> hasTranslation
         then s2\<lparr>timers := timers s2 @ [(3000, ''hideFloatingBar'')]\<rparr>
         else s2)"

definition clearSentenceHover :: "state \<Rightarrow> state" where
  "clearSentenceHover s =
     (case hoveredSentence s of
        None \<Rightarrow> s
      | Some el \<Rightarrow>
          s\<lparr>classList := (classList s)(el := classList s el - {''vakya-sentence-hover''}),
            hoveredSentence := None\<rparr>)"

text \<open>
  Which translated element lies under the pointer is decided by the browser
  (\<open>elementFromPoint\<close> and \<open>closest('.vakya-translated')\<close>): it is an argument.
\<close>

definition updateSentenceHoverAtPoint :: "nat option \<Rightarrow> state \<Rightarrow> state" where
  "updateSentenceHoverAtPoint atPoint s =
     (case atPoint of
        None \<Rightarrow> clearSentenceHover s
      | Some translatedEl \<Rightarrow>
          if hoveredSentence s \<noteq> Some translatedEl then
            (let s1 = clearSentenceHover s
             in s1\<lparr>hoveredSentence := Some translatedEl,
                    classList := (classList s1)
                      (translatedEl := insert ''vakya-sentence-hover'' (classList s1 translatedEl))\<rparr>)
          else s)"

definition keydownListener :: "string \<Rightarrow> nat option \<Rightarrow> state \<Rightarrow> state" where
  "keydownListener key atPoint s =
     (let s1 = (if key = ''Escape'' \<and> activeTooltip s \<noteq> None then hideTooltip s else s)
      in if (key = ''Meta'' \<or> key = ''Control'') \<and> \<not> isModifierHeld s1
         then updateSentenceHoverAtPoint atPoint
                (s1\<lparr>isModifierHeld := True,
                    bodyClassList := insert ''vakya-sentence-mode'' (bodyClassList s1)\<rparr>)
         else s1)"

definition keyupListener :: "string \<Rightarrow> state \<Rightarrow> state" where
  "keyupListener key s =
     (if key = ''Meta'' \<or> key = ''Control''
      then clearSentenceHover
             (s\<lparr>isModifierHeld := False,
                bodyClassList := bodyClassList s - {''vakya-sentence-mode''}\<rparr>)
      else s)"

definition blurListener :: "state \<Rightarrow> state" where
  "blurListener s =
     clearSentenceHover
       (s\<lparr>isModifierHeld := False, bodyClassList := bodyClassList s - {''vakya-sentence-mode''}\<rparr>)"

definition setTextContent :: "nat \<Rightarrow> jsstring \<Rightarrow> state \<Rightarrow> state" where
  \<comment> \<open>\<open>el.textContent = text\<close>: one text node, or no child for the empty string\<close>
  "setTextContent el text s =
     s\<lparr>page := replaceChildren el (if text = [] then [] else [Leaf (TextNode text)]) (page s)\<rparr>"

definition renderInto :: "unicode \<Rightarrow> nat \<Rightarrow> jsstring \<Rightarrow> state \<Rightarrow> state" where
  \<comment> \<open>\<open>renderTranslatedBlock(element, text)\<close> on the page\<close>
  "renderInto U el text s =
     s\<lparr>page := replaceChildren el (map Leaf (renderTranslatedBlock U text)) (page s)\<rparr>"

definition translateElement :: "unicode \<Rightarrow> nat \<Rightarrow> block \<Rightarrow> state \<Rightarrow> state" where
  \<comment> \<open>the body of the loop of \<open>applyTranslations\<close>, after \<open>originals.push\<close>\<close>
  "translateElement U el b s =
     (let s1 = s\<lparr>dataset := (dataset s)(el := (dataset s el)
                    (''vakyaOriginal'' \<mapsto> getTextContent (page s) el, ''vakyaContext'' \<mapsto> original b))\<rparr>;
          s2 = s1\<lparr>classList := (classList s1)(el := insert ''vakya-translated'' (classList s1 el))\<rparr>;
          s3 = renderInto U el (if translated b \<noteq> [] then translated b else original b) s2
      in s3\<lparr>listeners := (listeners s3)(el := insert (''click'', ''handleSentenceClick'') (listeners s3 el))\<rparr>)"

fun applyLoop ::
  "unicode \<Rightarrow> nat list \<Rightarrow> block list \<Rightarrow> jsstring list \<Rightarrow> state \<Rightarrow> jsstring list \<times> state" where
  \<comment> \<open>\<open>for (let i = 0; i < count; i++)\<close>, with \<open>count\<close> the shorter length\<close>
  "applyLoop U (el # els) (b # bs) origs s =
     applyLoop U els bs (origs @ [getTextContent (page s) el]) (translateElement U el b s)"
| "applyLoop U els bs origs s = (origs, s)"

definition applyTranslations :: "unicode \<Rightarrow> nat list \<Rightarrow> block list \<Rightarrow> state \<Rightarrow> state" where
  "applyTranslations U els bs s =
     (let count = min (length els) (length bs);
          (origs, s') = applyLoop U els bs [] s
      in s'\<lparr>translationState := Some \<lparr>elements = take count els, originals = origs\<rparr>\<rparr>)"

definition restoreElement :: "nat \<Rightarrow> jsstring \<Rightarrow> state \<Rightarrow> state" where
  \<comment> \<open>the callback of \<open>forEach\<close> in \<open>restoreOriginal\<close>\<close>
  "restoreElement el text s =
     (let s1 = s\<lparr>listeners := (listeners s)(el := listeners s el - {(''click'', ''handleSentenceClick'')})\<rparr>;
          s2 = setTextContent el text s1;
          s3 = s2\<lparr>classList := (classList s2)(el := classList s2 el - {''vakya-translated''})\<rparr>
      in s3\<lparr>dataset := (dataset s3)(el := (dataset s3 el)(''vakyaOriginal'' := None, ''vakyaContext'' := None))\<rparr>)"

fun restoreLoop :: "nat list \<Rightarrow> nat \<Rightarrow> jsstring list \<Rightarrow> state \<Rightarrow> state" where
  \<comment> \<open>\<open>elements.forEach((el, i) => ...)\<close>; \<open>originals[i] || ''\<close> is empty out of range\<close>
  "restoreLoop [] i origs s = s"
| "restoreLoop (el # els) i origs s =
     restoreLoop els (Suc i) origs
       (restoreElement el (if i < length origs then origs ! i else []) s)"

definition restoreOriginal :: "state \<Rightarrow> state" where
  "restoreOriginal s =
     (case translationState s of
        None \<Rightarrow> s
      | Some ts \<Rightarrow>
          let s1 = restoreLoop (elements ts) 0 (originals ts) s;
              s2 = s1\<lparr>translationState := None, browserTranslator := None,
                      browserTranslatorInitialized := False, translatorLanguages := None\<rparr>;
              s3 = hideFloatingBar (hideTooltip s2);
              s4 = showFloatingBar OriginalRestored ''info'' s3
          in s4\<lparr>timers := timers s4 @ [(2000, ''hideFloatingBar'')]\<rparr>)"

text \<open>
  \<open>translatePage\<close> waits for collaborators outside the content script: Readability,
  the HTML parser, the matcher on the snapshot of the page (modelled above; here its
  result is a list of handles), the background script and the settings store. What they
  deliver in one run is the environment of the run.
\<close>

datatype response =
  SendThrows string
| NotOk string
| Ok translation_result

record environment =
  env_articleFound :: bool
  env_textBlocks :: "jsstring list"
  env_originalElements :: "nat list"
  env_backgroundResponse :: response
  env_targetLanguage :: string
  env_nativeLanguage :: string

definition handleTranslationError :: "string \<Rightarrow> state \<Rightarrow> state" where
  "handleTranslationError msg s = showOverlay ''error'' (if msg = [] then ''Translation failed'' else msg) s"

definition translatePage :: "unicode \<Rightarrow> environment \<Rightarrow> state \<Rightarrow> state" where
  "translatePage U env s =
     (if translationState s \<noteq> None then showFloatingBar PageAlreadyTranslated ''info'' s
      else if \<not> env_articleFound env then showOverlay ''error'' ''No content found'' s
      else if env_textBlocks env = [] then showOverlay ''error'' ''No readable content'' s
      else if env_originalElements env = [] then showOverlay ''error'' ''Could not match content'' s
      else
        let s1 = showOverlay ''loading'' ''Translating...'' s in
        case env_backgroundResponse env of
          SendThrows msg \<Rightarrow> handleTranslationError msg s1
        | NotOk msg \<Rightarrow> handleTranslationError msg s1
        | Ok result \<Rightarrow>
            let s2 = hideOverlay s1;
                s3 = applyTranslations U (env_originalElements env) (blocks result) s2;
                s4 = s3\<lparr>translatorLanguages := Some (env_targetLanguage env, env_nativeLanguage env)\<rparr>;
                n = length (env_originalElements env)
            in if failedBatches result > 0
               then showFloatingBar
                      (TranslatedWithFailures n (failedBatches result) (totalBatches result))
                      ''warning'' s4
               else showFloatingBar (Translated n) ''success'' s4)"

text \<open>The module state when the content script has just been loaded into a page.\<close>

definition initialState :: "dom \<Rightarrow> state" where
  "initialState p =
     \<lparr>page = p, classList = (\<lambda>el. {}), dataset = (\<lambda>el. Map.empty), listeners = (\<lambda>el. {}),
      bodyClassList = {}, translationState = None, activeTooltip = None, activeOverlay = None,
      activeFloatingBar = None, currentClickedWord = None, browserTranslator = None,
      browserTranslatorInitialized = False, translatorLanguages = None, isModifierHeld = False,
      hoveredSentence = None, timers = []\<rparr>"

text \<open>
  Two notions for the proofs about the store: the pointwise update that
  \<open>replaceChildren\<close> performs on an element that is in the store, and the order
  condition on a list of elements: no element contains one that comes earlier.
\<close>

definition updChildren :: "nat \<Rightarrow> item list \<Rightarrow> dom \<Rightarrow> dom" where
  "updChildren el new p = map (\<lambda>(i, items). if i = el then (i, new) else (i, items)) p"

fun earlierNotInside :: "dom \<Rightarrow> nat list \<Rightarrow> bool" where
  "earlierNotInside p [] = True"
| "earlierNotInside p (e # es) = ((\<forall>x \<in> set es. \<not> contains p x e) \<and> earlierNotInside p es)"

text \<open>
  Examples for concrete evaluation: tables in which nothing beyond ASCII is a letter, a
  dash or a mark; a page with a paragraph (element 1) that contains a span (element 2),
  and a second paragraph (element 3); two translated blocks.
\<close>

definition asciiOnly :: unicode where
  "asciiOnly = \<lparr>cat_L = \<lambda>c. False, cat_Pd = \<lambda>c. False, cat_M = \<lambda>c. False\<rparr>"

definition examplePage :: dom where
  "examplePage =
     [(1, [Leaf (TextNode (js ''Die '')), Sub 2]),
      (2, [Leaf (TextNode (js ''Welt''))]),
      (3, [Leaf (TextNode (js ''Ende''))])]"

definition exampleBlocks :: "block list" where
  "exampleBlocks =
     [\<lparr>original = js ''Die Welt'', translated = js ''The world''\<rparr>,
      \<lparr>original = js ''Welt'', translated = js ''world''\<rparr>]"

definition exampleEnvironment :: environment where
  "exampleEnvironment =
     \<lparr>env_articleFound = True, env_textBlocks = [js ''Die Welt''], env_originalElements = [1],
      env_backgroundResponse = Ok \<lparr>blocks = exampleBlocks, failedBatches = 0, totalBatches = 1\<rparr>,
      env_targetLanguage = ''English'', env_nativeLanguage = ''German''\<rparr>"

section \<open>Properties of the string functions\<close>

lemma concat_split_ws_capture: "concat (split_ws True s) = s"
proof (induction "True" s rule: split_ws.induct)
  case (1 s)
  show ?case
  proof (cases "dropWhile (\<lambda>c. \<not> isSpace c) s = []")
    case True
    then show ?thesis
      by (subst split_ws.simps) (simp add: Let_def takeWhile_eq_all_conv dropWhile_eq_Nil_conv)
  next
    case False
    from 1 [OF refl refl False] show ?thesis
      by (subst split_ws.simps) (simp add: Let_def False)
  qed
qed

lemma split_ws_pieces:
  "f \<in> set (split_ws capture s) \<Longrightarrow>
     (\<forall>c\<in>set f. \<not> isSpace c) \<or> (capture \<and> f \<noteq> [] \<and> (\<forall>c\<in>set f. isSpace c))"
proof (induction capture s rule: split_ws.induct)
  case (1 capture s)
  show ?case
  proof (cases "dropWhile (\<lambda>c. \<not> isSpace c) s = []")
    case True
    with "1.prems" have "f = takeWhile (\<lambda>c. \<not> isSpace c) s"
      by (subst (asm) split_ws.simps) (simp add: Let_def)
    then show ?thesis
      by (auto dest: set_takeWhileD)
  next
    case False
    let ?rest = "dropWhile (\<lambda>c. \<not> isSpace c) s"
    from "1.prems" False
    consider "f = takeWhile (\<lambda>c. \<not> isSpace c) s"
      | "capture" "f = takeWhile isSpace ?rest"
      | "f \<in> set (split_ws capture (dropWhile isSpace ?rest))"
      by (subst (asm) split_ws.simps) (auto simp: Let_def split: if_splits)
    then show ?thesis
    proof cases
      case 1
      then show ?thesis by (auto dest: set_takeWhileD)
    next
      case 2
      from False have "isSpace (hd ?rest)"
        using hd_dropWhile [of "\<lambda>c. \<not> isSpace c" s] by simp
      with False have "takeWhile isSpace ?rest \<noteq> []"
        by (cases ?rest) auto
      with 2 show ?thesis by (auto dest: set_takeWhileD)
    next
      case 3
      from "1.IH" [OF refl refl False 3] show ?thesis .
    qed
  qed
qed

lemma not_isHigh_codePoints: "\<not> isHigh h \<Longrightarrow> codePoints (h # xs) = h # codePoints xs"
  by (cases xs) auto

lemma keyChar_not_surrogate: "keyChar U c \<Longrightarrow> \<not> isSurrogate c"
  by (auto simp: keyChar_def pL_def pPd_def pM_def isSurrogate_def isHigh_def isLow_def split: if_splits)

lemma codePoints_stripKey: "codePoints (stripKey U f) = filter (keyChar U) (codePoints f)"
proof (induction U f rule: stripKey.induct)
  case (1 U h l rest)
  show ?case
  proof (cases "isHigh h \<and> isLow l")
    case True
    with 1 show ?thesis by simp
  next
    case False
    have "keyChar U h \<Longrightarrow> \<not> isHigh h"
      using keyChar_not_surrogate [of U h] by (simp add: isSurrogate_def)
    with False 1 show ?thesis
      by (auto simp: not_isHigh_codePoints)
  qed
qed (simp_all)

lemma renderFragments_text: "concat (map childText (renderFragments U fs)) = concat fs"
  by (induction fs) auto

lemma renderFragments_span:
  "WordSpan f w \<in> set (renderFragments U fs) \<Longrightarrow>
     f \<in> set fs \<and> f \<noteq> [] \<and> hasLetter U f \<and> w = stripKey U f"
  by (induction fs) (auto split: if_splits)

lemma renderFragments_plain:
  "TextNode f \<in> set (renderFragments U fs) \<Longrightarrow> f \<in> set fs \<and> f \<noteq> [] \<and> \<not> hasLetter U f"
  by (induction fs) (auto split: if_splits)

lemma split_ws_Nil: "split_ws capture [] = [[]]"
  by (subst split_ws.simps) simp

lemma startsWithSpace_hd: "f \<noteq> [] \<Longrightarrow> startsWithSpace f = isSpace (hd f)"
  by (cases f) (simp_all add: startsWithSpace_def)

lemma split_ws_alternating:
  "alternating (filter (\<lambda>f. f \<noteq> []) (split_ws True s)) \<and>
   (s \<noteq> [] \<longrightarrow> filter (\<lambda>f. f \<noteq> []) (split_ws True s) \<noteq> [] \<and>
      startsWithSpace (hd (filter (\<lambda>f. f \<noteq> []) (split_ws True s))) = isSpace (hd s)) \<and>
   (s = [] \<longrightarrow> filter (\<lambda>f. f \<noteq> []) (split_ws True s) = [])"
proof (induction "True" s rule: split_ws.induct)
  case (1 s)
  let ?piece = "takeWhile (\<lambda>c. \<not> isSpace c) s"
  let ?rest = "dropWhile (\<lambda>c. \<not> isSpace c) s"
  let ?run = "takeWhile isSpace ?rest"
  let ?s' = "dropWhile isSpace ?rest"
  let ?fs' = "filter (\<lambda>f. f \<noteq> []) (split_ws True ?s')"
  show ?case
  proof (cases "?rest = []")
    case True
    then have "split_ws True s = [?piece]"
      by (subst split_ws.simps) (simp add: Let_def)
    moreover from True have "?piece = s"
      by (simp add: takeWhile_eq_all_conv dropWhile_eq_Nil_conv)
    ultimately show ?thesis
      by (cases s) (simp_all add: startsWithSpace_def)
  next
    case False
    then have eq: "split_ws True s = ?piece # ?run # split_ws True ?s'"
      by (subst split_ws.simps) (simp add: Let_def)
    from False have sne: "s \<noteq> []" by auto
    from False have hrest: "isSpace (hd ?rest)"
      using hd_dropWhile [of "\<lambda>c. \<not> isSpace c" s] by simp
    from False obtain a as where r: "?rest = a # as"
      by (cases ?rest) auto
    with hrest have "isSpace a" by simp
    with r have run: "?run \<noteq> []" "startsWithSpace ?run"
      by (simp_all add: startsWithSpace_def)
    from "1" [OF refl refl False]
    have ih: "alternating ?fs'"
      "?s' \<noteq> [] \<longrightarrow> ?fs' \<noteq> [] \<and> startsWithSpace (hd ?fs') = isSpace (hd ?s')"
      "?s' = [] \<longrightarrow> ?fs' = []"
      by blast+
    have s'kind: "?s' \<noteq> [] \<Longrightarrow> \<not> isSpace (hd ?s')"
      using hd_dropWhile [of isSpace ?rest] by simp
    have tail: "alternating (?run # ?fs')"
    proof (cases ?fs')
      case Nil
      then show ?thesis by (simp only: alternating.simps)
    next
      case (Cons g gs)
      with ih(3) have ne: "?s' \<noteq> []" by (metis list.distinct(1))
      from ih(2) ne have "startsWithSpace (hd ?fs') = isSpace (hd ?s')" by blast
      with s'kind [OF ne] have "\<not> startsWithSpace (hd ?fs')" by blast
      then have g: "\<not> startsWithSpace g" by (simp add: Cons)
      from ih(1) have "alternating (g # gs)" by (simp only: Cons)
      with run(2) g show ?thesis by (simp only: Cons alternating.simps) simp
    qed
    show ?thesis
    proof (cases "?piece = []")
      case True
      then have "?rest = s"
        by (metis append_Nil takeWhile_dropWhile_id)
      with hrest have "isSpace (hd s)" by simp
      with True run tail sne show ?thesis
        by (simp add: eq)
    next
      case pne: False
      then have "hd ?piece = hd s"
        by (cases s) (auto split: if_splits)
      moreover have "\<not> isSpace (hd ?piece)"
        using set_takeWhileD [OF hd_in_set [OF pne]] by simp
      ultimately have "\<not> startsWithSpace ?piece" "\<not> isSpace (hd s)"
        using pne by (simp_all add: startsWithSpace_hd)
      then show ?thesis
        using pne run tail sne by (simp add: eq)
    qed
  qed
qed

lemma renderFragments_texts:
  "map childText (renderFragments U fs) = filter (\<lambda>f. f \<noteq> []) fs"
  by (induction fs) auto

lemma newSet_from_set: "set (newSet_from acc xs) = set acc \<union> set xs"
  by (induction xs arbitrary: acc) auto

lemma newSet_from_distinct: "distinct acc \<Longrightarrow> distinct (newSet_from acc xs)"
  by (induction xs arbitrary: acc) auto

lemma newSet_size: "length (newSet xs) = card (set xs)"
proof -
  have "distinct (newSet xs)"
    by (simp add: newSet_def newSet_from_distinct)
  then have "length (newSet xs) = card (set (newSet xs))"
    by (simp add: distinct_card)
  then show ?thesis
    by (simp add: newSet_def newSet_from_set)
qed

lemma newSet_Nil_iff: "newSet xs = [] \<longleftrightarrow> set xs = {}"
proof -
  have "set (newSet xs) = set xs"
    by (simp add: newSet_def newSet_from_set)
  then show ?thesis
    by (metis set_empty)
qed

lemma countIntersection_filter:
  "countIntersection ws wordsB n = n + length (filter (\<lambda>w. w \<in> set wordsB) ws)"
  by (induction ws arbitrary: n) auto

lemma countIntersection_card:
  "countIntersection (newSet xs) (newSet ys) 0 = card (set xs \<inter> set ys)"
proof -
  have d: "distinct (filter (\<lambda>w. w \<in> set (newSet ys)) (newSet xs))"
    by (simp add: newSet_def newSet_from_distinct)
  have "set (filter (\<lambda>w. w \<in> set (newSet ys)) (newSet xs)) = set xs \<inter> set ys"
    by (auto simp: newSet_def newSet_from_set)
  with distinct_card [OF d] show ?thesis
    by (simp add: countIntersection_filter)
qed

lemma set_long_filter: "set (filter (\<lambda>w. length w > 2) (split_ws False a)) = longWords a"
  by (auto simp: longWords_def)

lemma finite_longWords: "finite (longWords a)"
  by (simp add: longWords_def)

lemma textSimilarity_eq:
  "textSimilarity a b =
     (if longWords a = {} \<or> longWords b = {} then 0
      else real (card (longWords a \<inter> longWords b)) /
           (real (card (longWords a)) + real (card (longWords b))
              - real (card (longWords a \<inter> longWords b))))"
  by (simp add: textSimilarity_def Let_def newSet_size newSet_Nil_iff countIntersection_card
        set_long_filter del: set_filter)

lemma textSimilarity_range: "0 \<le> textSimilarity a b \<and> textSimilarity a b \<le> 1"
proof (cases "longWords a = {} \<or> longWords b = {}")
  case True
  then show ?thesis by (simp add: textSimilarity_eq)
next
  case False
  let ?i = "card (longWords a \<inter> longWords b)"
  have ia: "?i \<le> card (longWords a)"
    by (simp add: card_mono finite_longWords)
  have ib: "?i \<le> card (longWords b)"
    by (simp add: card_mono finite_longWords)
  from False have "card (longWords b) > 0"
    by (simp add: card_gt_0_iff finite_longWords)
  with ia ib have pos: "real (card (longWords a)) + real (card (longWords b)) - real ?i > 0"
    by linarith
  from ib have "real ?i \<le> real (card (longWords a)) + real (card (longWords b)) - real ?i"
    using ia by linarith
  with pos False show ?thesis
    by (simp add: textSimilarity_eq)
qed

lemma textSimilarity_sym: "textSimilarity a b = textSimilarity b a"
  by (simp add: textSimilarity_eq Int_commute add.commute disj_commute)

lemma textSimilarity_self: "longWords a \<noteq> {} \<Longrightarrow> textSimilarity a a = 1"
  by (simp add: textSimilarity_eq card_eq_0_iff finite_longWords)

section \<open>Claims about the tokenizer\<close>

text \<open>
  C3. The children that \<open>renderTranslatedBlock\<close> appends, read in order, spell the
  input string exactly. Every child is a non-empty fragment that is either a run of
  whitespace or free of whitespace, and the two kinds alternate, so every maximal run
  of whitespace is one fragment of its own. A fragment with a letter becomes a word
  span with the fragment as its text, every other fragment a plain text node. This
  holds for every input, with or without a letter.
\<close>

theorem renderTranslatedBlock_roundtrip:
  "concat (map childText (renderTranslatedBlock U text)) = text \<and>
   alternating (map childText (renderTranslatedBlock U text)) \<and>
   (\<forall>ch \<in> set (renderTranslatedBlock U text).
      childText ch \<noteq> [] \<and>
      ((\<forall>c \<in> set (childText ch). isSpace c) \<or> (\<forall>c \<in> set (childText ch). \<not> isSpace c)) \<and>
      (case ch of WordSpan f w \<Rightarrow> hasLetter U f | TextNode f \<Rightarrow> \<not> hasLetter U f))"
proof (intro conjI ballI)
  show "concat (map childText (renderTranslatedBlock U text)) = text"
    by (simp add: renderTranslatedBlock_def renderFragments_text concat_split_ws_capture)
  show "alternating (map childText (renderTranslatedBlock U text))"
    using split_ws_alternating [of "text"]
    by (simp add: renderTranslatedBlock_def renderFragments_texts)
next
  fix ch
  assume ch: "ch \<in> set (renderTranslatedBlock U text)"
  have frag: "childText ch \<in> set (split_ws True text) \<and> childText ch \<noteq> [] \<and>
      (case ch of WordSpan f w \<Rightarrow> hasLetter U f | TextNode f \<Rightarrow> \<not> hasLetter U f)"
  proof (cases ch)
    case (TextNode f)
    with ch renderFragments_plain [of f U "split_ws True text"] show ?thesis
      by (simp add: renderTranslatedBlock_def)
  next
    case (WordSpan f w)
    with ch renderFragments_span [of f w U "split_ws True text"] show ?thesis
      by (simp add: renderTranslatedBlock_def)
  qed
  then show "childText ch \<noteq> []"
    by simp
  from frag show "case ch of WordSpan f w \<Rightarrow> hasLetter U f | TextNode f \<Rightarrow> \<not> hasLetter U f"
    by simp
  from frag split_ws_pieces [of "childText ch" True "text"]
  show "(\<forall>c \<in> set (childText ch). isSpace c) \<or> (\<forall>c \<in> set (childText ch). \<not> isSpace c)"
    by blast
qed

theorem renderTranslatedBlock_roundtrip_witness:
  "renderTranslatedBlock \<lparr>cat_L = \<lambda>c. False, cat_Pd = \<lambda>c. False, cat_M = \<lambda>c. False\<rparr> (js ''Der Hund, 3 !'')
     = [WordSpan (js ''Der'') (js ''Der''), TextNode (js '' ''), WordSpan (js ''Hund,'') (js ''Hund''),
        TextNode (js '' ''), TextNode (js ''3''), TextNode (js '' ''), TextNode (js ''!'')] \<and>
   concat (map childText (renderTranslatedBlock
      \<lparr>cat_L = \<lambda>c. False, cat_Pd = \<lambda>c. False, cat_M = \<lambda>c. False\<rparr> (js ''Der Hund, 3 !'')))
     = js ''Der Hund, 3 !'' \<and>
   childText (WordSpan (js ''Hund,'') (js ''Hund'')) \<noteq> [] \<and>
   hasLetter \<lparr>cat_L = \<lambda>c. False, cat_Pd = \<lambda>c. False, cat_M = \<lambda>c. False\<rparr> (js ''Hund,'')"
proof -
  let ?U = "\<lparr>cat_L = \<lambda>c. False, cat_Pd = \<lambda>c. False, cat_M = \<lambda>c. False\<rparr>"
  have r: "renderTranslatedBlock ?U (js ''Der Hund, 3 !'')
     = [WordSpan (js ''Der'') (js ''Der''), TextNode (js '' ''), WordSpan (js ''Hund,'') (js ''Hund''),
        TextNode (js '' ''), TextNode (js ''3''), TextNode (js '' ''), TextNode (js ''!'')]"
    by (simp add: renderTranslatedBlock_def split_ws.simps js_def isSpace_def hasLetter_def
          pL_def keyChar_def pPd_def pM_def isHigh_def isLow_def)
  then have m: "WordSpan (js ''Hund,'') (js ''Hund'') \<in> set (renderTranslatedBlock ?U (js ''Der Hund, 3 !''))"
    by simp
  from renderTranslatedBlock_roundtrip [of ?U "js ''Der Hund, 3 !''"] m r show ?thesis
    by (auto simp del: childText.simps)
qed

text \<open>
  C7. The lookup key of a word span is its fragment without the code points that are
  neither a letter, a mark, an apostrophe nor a dash: read code point by code point,
  the key is the fragment filtered by that class. The text of the span is the fragment
  itself, a piece of the input. \<open>"Wort."\<close> gives the key \<open>"Wort"\<close> under the text
  \<open>"Wort."\<close>.
\<close>

theorem word_key_is_stripped_fragment:
  "(\<forall>f w. WordSpan f w \<in> set (renderTranslatedBlock U text) \<longrightarrow>
      f \<in> set (split_ws True text) \<and>
      codePoints w = filter (\<lambda>c. pL U c \<or> pM U c \<or> c = 39 \<or> pPd U c) (codePoints f)) \<and>
   renderTranslatedBlock U (js ''Wort.'') = [WordSpan (js ''Wort.'') (js ''Wort'')]"
proof (intro conjI allI impI)
  fix f w
  assume "WordSpan f w \<in> set (renderTranslatedBlock U text)"
  then have fw: "f \<in> set (split_ws True text) \<and> w = stripKey U f"
    using renderFragments_span [of f w U "split_ws True text"]
    by (simp add: renderTranslatedBlock_def)
  then show "f \<in> set (split_ws True text)"
    by simp
  have "keyChar U = (\<lambda>c. pL U c \<or> pM U c \<or> c = 39 \<or> pPd U c)"
    by (auto simp: keyChar_def fun_eq_iff)
  with fw codePoints_stripKey [of U f]
  show "codePoints w = filter (\<lambda>c. pL U c \<or> pM U c \<or> c = 39 \<or> pPd U c) (codePoints f)"
    by simp
next
  show "renderTranslatedBlock U (js ''Wort.'') = [WordSpan (js ''Wort.'') (js ''Wort'')]"
    by (simp add: renderTranslatedBlock_def split_ws.simps js_def isSpace_def hasLetter_def
          pL_def keyChar_def pPd_def pM_def isHigh_def isLow_def)
qed

theorem word_key_is_stripped_fragment_witness:
  "WordSpan ((js ''l'' @ [39] @ js ''hiver-la.'')) ((js ''l'' @ [39] @ js ''hiver-la''))
     \<in> set (renderTranslatedBlock \<lparr>cat_L = \<lambda>c. False, cat_Pd = \<lambda>c. False, cat_M = \<lambda>c. False\<rparr>
              ((js ''(2024) l'' @ [39] @ js ''hiver-la.''))) \<and>
   codePoints ((js ''l'' @ [39] @ js ''hiver-la''))
     = filter (\<lambda>c. pL \<lparr>cat_L = \<lambda>c. False, cat_Pd = \<lambda>c. False, cat_M = \<lambda>c. False\<rparr> c \<or>
                   pM \<lparr>cat_L = \<lambda>c. False, cat_Pd = \<lambda>c. False, cat_M = \<lambda>c. False\<rparr> c \<or> c = 39 \<or>
                   pPd \<lparr>cat_L = \<lambda>c. False, cat_Pd = \<lambda>c. False, cat_M = \<lambda>c. False\<rparr> c)
         (codePoints ((js ''l'' @ [39] @ js ''hiver-la.'')))"
proof -
  let ?U = "\<lparr>cat_L = \<lambda>c. False, cat_Pd = \<lambda>c. False, cat_M = \<lambda>c. False\<rparr>"
  have m: "WordSpan ((js ''l'' @ [39] @ js ''hiver-la.'')) ((js ''l'' @ [39] @ js ''hiver-la''))
             \<in> set (renderTranslatedBlock ?U ((js ''(2024) l'' @ [39] @ js ''hiver-la.'')))"
    by (simp add: renderTranslatedBlock_def split_ws.simps js_def isSpace_def hasLetter_def
          pL_def keyChar_def pPd_def pM_def isHigh_def isLow_def)
  from word_key_is_stripped_fragment [of ?U "(js ''(2024) l'' @ [39] @ js ''hiver-la.'')"] m show ?thesis
    by blast
qed

text \<open>
  C10. A word span is created only for a fragment that contains a letter, and its
  lookup key is never empty: the key still contains a letter.
\<close>

theorem word_key_nonempty:
  "WordSpan f w \<in> set (renderTranslatedBlock U text) \<Longrightarrow>
     hasLetter U f \<and> w \<noteq> [] \<and> list_ex (pL U) (codePoints w)"
proof -
  assume "WordSpan f w \<in> set (renderTranslatedBlock U text)"
  then have fw: "hasLetter U f" "w = stripKey U f"
    using renderFragments_span [of f w U "split_ws True text"]
    by (simp_all add: renderTranslatedBlock_def)
  then obtain c where c: "c \<in> set (codePoints f)" "pL U c"
    by (auto simp: hasLetter_def list_ex_iff)
  then have "c \<in> set (filter (keyChar U) (codePoints f))"
    by (simp add: keyChar_def)
  with fw have cw: "c \<in> set (codePoints w)"
    by (simp add: codePoints_stripKey)
  then have "w \<noteq> []"
    by auto
  with fw cw c show ?thesis
    by (auto simp: list_ex_iff)
qed

theorem word_key_nonempty_witness:
  "WordSpan (js ''(a)'') (js ''a'')
     \<in> set (renderTranslatedBlock \<lparr>cat_L = \<lambda>c. False, cat_Pd = \<lambda>c. False, cat_M = \<lambda>c. False\<rparr>
              (js ''1 (a) 2'')) \<and>
   js ''a'' \<noteq> []"
proof -
  let ?U = "\<lparr>cat_L = \<lambda>c. False, cat_Pd = \<lambda>c. False, cat_M = \<lambda>c. False\<rparr>"
  have m: "WordSpan (js ''(a)'') (js ''a'') \<in> set (renderTranslatedBlock ?U (js ''1 (a) 2''))"
    by (simp add: renderTranslatedBlock_def split_ws.simps js_def isSpace_def hasLetter_def
          pL_def keyChar_def pPd_def pM_def isHigh_def isLow_def)
  from word_key_nonempty [OF m] m show ?thesis
    by simp
qed

section \<open>Claims about text similarity\<close>

text \<open>
  C6. \<open>textSimilarity a b\<close> is the Jaccard index of the two sets of words longer than
  two code units: zero when one of the sets is empty, the size of the intersection over
  the size of the union otherwise. It is symmetric, lies between 0 and 1, and a string
  with at least one such word has similarity 1 to itself.
\<close>

theorem textSimilarity_jaccard:
  "textSimilarity a b =
     (if longWords a = {} \<or> longWords b = {} then 0
      else real (card (longWords a \<inter> longWords b)) /
           (real (card (longWords a)) + real (card (longWords b))
              - real (card (longWords a \<inter> longWords b)))) \<and>
   textSimilarity a b = textSimilarity b a \<and>
   0 \<le> textSimilarity a b \<and> textSimilarity a b \<le> 1 \<and>
   (longWords a \<noteq> {} \<longrightarrow> textSimilarity a a = 1)"
  using textSimilarity_eq [of a b] textSimilarity_sym [of a b] textSimilarity_range [of a b]
    textSimilarity_self [of a]
  by blast

theorem textSimilarity_jaccard_witness:
  "longWords (js ''der Hund'') \<noteq> {} \<and> textSimilarity (js ''der Hund'') (js ''der Hund'') = 1 \<and>
   textSimilarity (js ''der Hund'') (js ''der gute Hund'') = 2 / 3"
proof -
  have "js ''der'' \<in> longWords (js ''der Hund'')"
    by (simp add: longWords_def split_ws.simps js_def isSpace_def)
  then have h: "longWords (js ''der Hund'') \<noteq> {}"
    by blast
  have v: "textSimilarity (js ''der Hund'') (js ''der gute Hund'') = 2 / 3"
    by (simp add: textSimilarity_def split_ws.simps js_def isSpace_def newSet_def Let_def)
  from textSimilarity_jaccard [of "js ''der Hund''" "js ''der Hund''"] h v show ?thesis
    by blast
qed

section \<open>Properties of the matcher\<close>

lemma scanCandidates_exact:
  "find (\<lambda>el. eligible doc used el \<and> exactMatch lc doc target el) cs = Some el \<Longrightarrow>
     scanCandidates lc doc used target cs bm bs = (Some el, 1)"
  by (induction cs arbitrary: bm bs)
     (auto simp: eligible_def exactMatch_def Let_def split: if_splits)

lemma scanCandidates_fuzzy:
  assumes "\<forall>el \<in> set cs. eligible doc used el \<longrightarrow> \<not> exactMatch lc doc target el"
  shows "\<exists>bm' bs'. scanCandidates lc doc used target cs bm bs = (bm', bs') \<and> bs \<le> bs' \<and>
           (\<forall>el \<in> set cs. eligible doc used el \<and> score lc doc target el > 85 / 100 \<longrightarrow>
                score lc doc target el \<le> bs') \<and>
           ((bm', bs') = (bm, bs) \<or>
            (\<exists>el \<in> set cs. bm' = Some el \<and> eligible doc used el \<and> score lc doc target el = bs' \<and>
                bs' > 85 / 100 \<and> bs' > bs))"
  using assms
proof (induction cs arbitrary: bm bs)
  case Nil
  then show ?case by simp
next
  case (Cons el cs)
  from Cons.prems have rest: "\<forall>el \<in> set cs. eligible doc used el \<longrightarrow> \<not> exactMatch lc doc target el"
    by simp
  show ?case
  proof (cases "eligible doc used el")
    case False
    then have eq: "scanCandidates lc doc used target (el # cs) bm bs
                 = scanCandidates lc doc used target cs bm bs"
      by (auto simp: eligible_def)
    from Cons.IH [OF rest, of bm bs] False show ?thesis
      unfolding eq by auto
  next
    case True
    with Cons.prems have nex: "normalizeText lc (elTextContent doc el) \<noteq> target"
      by (simp add: exactMatch_def)
    let ?s = "score lc doc target el"
    show ?thesis
    proof (cases "?s > 85 / 100 \<and> ?s > bs")
      case better: True
      with True nex have eq: "scanCandidates lc doc used target (el # cs) bm bs
                 = scanCandidates lc doc used target cs (Some el) ?s"
        by (simp add: eligible_def score_def Let_def)
      from Cons.IH [OF rest, of "Some el" ?s]
      obtain bm' bs' where r: "scanCandidates lc doc used target cs (Some el) ?s = (bm', bs')"
        "?s \<le> bs'"
        "\<forall>e \<in> set cs. eligible doc used e \<and> score lc doc target e > 85 / 100 \<longrightarrow>
                score lc doc target e \<le> bs'"
        "(bm', bs') = (Some el, ?s) \<or>
            (\<exists>e \<in> set cs. bm' = Some e \<and> eligible doc used e \<and> score lc doc target e = bs' \<and>
                bs' > 85 / 100 \<and> bs' > ?s)"
        by blast
      from r better True show ?thesis
        unfolding eq by (intro exI [of _ bm'] exI [of _ bs']) auto
    next
      case worse: False
      with True nex have eq: "scanCandidates lc doc used target (el # cs) bm bs
                 = scanCandidates lc doc used target cs bm bs"
        by (auto simp: eligible_def score_def Let_def)
      from Cons.IH [OF rest, of bm bs]
      obtain bm' bs' where r: "scanCandidates lc doc used target cs bm bs = (bm', bs')"
        "bs \<le> bs'"
        "\<forall>e \<in> set cs. eligible doc used e \<and> score lc doc target e > 85 / 100 \<longrightarrow>
                score lc doc target e \<le> bs'"
        "(bm', bs') = (bm, bs) \<or>
            (\<exists>e \<in> set cs. bm' = Some e \<and> eligible doc used e \<and> score lc doc target e = bs' \<and>
                bs' > 85 / 100 \<and> bs' > bs)"
        by blast
      from r worse show ?thesis
        unfolding eq by (intro exI [of _ bm'] exI [of _ bs']) auto
    qed
  qed
qed

lemma scanCandidates_result:
  "fst (scanCandidates lc doc used target cs bm bs) = Some el \<Longrightarrow>
     bm = Some el \<or> (el \<in> set cs \<and> eligible doc used el)"
  by (induction cs arbitrary: bm bs)
     (auto simp: eligible_def Let_def split: if_splits)

lemma markAncestors_mono: "x \<in> used \<Longrightarrow> x \<in> markAncestors body parent used"
  by (induction body parent used rule: markAncestors.induct) auto

lemma isAncestorOf_butlast:
  "isAncestorOf a p \<Longrightarrow> p \<noteq> [] \<and> (a = butlast p \<or> isAncestorOf a (butlast p))"
proof -
  assume a: "isAncestorOf a p"
  then have len: "length a < length p" and tk: "take (length a) p = a"
    by (simp_all add: isAncestorOf_def)
  from len have ne: "p \<noteq> []" by auto
  from len have "take (length a) (butlast p) = take (length a) p"
    by (simp add: take_butlast)
  with tk have tb: "take (length a) (butlast p) = a" by simp
  show ?thesis
  proof (cases "length a = length (butlast p)")
    case True
    with tb have "a = butlast p" by simp
    with ne show ?thesis by simp
  next
    case False
    with len have "length a < length (butlast p)" by simp
    with tb ne show ?thesis by (simp add: isAncestorOf_def)
  qed
qed

lemma markAncestors_covers:
  "a = p \<or> isAncestorOf a p \<Longrightarrow>
     a \<in> markAncestors body (Some p) used \<or> (\<exists>b. body = Some b \<and> (a = b \<or> isAncestorOf a b))"
proof (induction body "Some p" used arbitrary: p rule: markAncestors.induct)
  case (2 body parent used)
  show ?case
  proof (cases "Some parent = body")
    case True
    with "2.prems" show ?thesis by auto
  next
    case False
    show ?thesis
    proof (cases "a = parent")
      case True
      with False show ?thesis by (simp add: markAncestors_mono)
    next
      case neq: False
      with "2.prems" have anc: "isAncestorOf a parent" by simp
      from isAncestorOf_butlast [OF anc]
      have ne: "parent \<noteq> []" and up: "a = butlast parent \<or> isAncestorOf a (butlast parent)"
        by simp_all
      from ne have pe: "parentElement parent = Some (butlast parent)"
        by (simp add: parentElement_def)
      from "2.hyps" [OF False pe up] False pe show ?thesis
        by simp
    qed
  qed
qed

lemma firstBody_Some:
  "firstBody i cs = Some b \<Longrightarrow>
     \<exists>k tag cs'. b = [i + k] \<and> k < length cs \<and> cs ! k = Element tag cs' \<and>
        (tag = ''BODY'' \<or> tag = ''FRAMESET'')"
proof (induction i cs rule: firstBody.induct)
  case (1 i)
  then show ?case by simp
next
  case (2 i s cs)
  then obtain k tag cs' where "b = [Suc i + k]" "k < length cs" "cs ! k = Element tag cs'"
      "tag = ''BODY'' \<or> tag = ''FRAMESET''"
    by auto
  then show ?case
    by (intro exI [of _ "Suc k"]) auto
next
  case (3 i tag cs' cs)
  show ?case
  proof (cases "tag = ''BODY'' \<or> tag = ''FRAMESET''")
    case True
    with 3 show ?thesis by (intro exI [of _ 0]) auto
  next
    case False
    with 3 obtain k tag' cs'' where "b = [Suc i + k]" "k < length cs" "cs ! k = Element tag' cs''"
      "tag' = ''BODY'' \<or> tag' = ''FRAMESET''"
      by auto
    then show ?thesis
      by (intro exI [of _ "Suc k"]) auto
  qed
qed

lemma documentBody_tags:
  assumes "documentBody doc = Some b"
  shows "tagName doc [] = ''HTML'' \<and> (\<exists>i. b = [i]) \<and>
         (tagName doc b = ''BODY'' \<or> tagName doc b = ''FRAMESET'')"
proof (cases doc)
  case (Text s)
  with assms show ?thesis by simp
next
  case (Element tag cs)
  with assms have html: "tag = ''HTML''" and fb: "firstBody 0 cs = Some b"
    by (simp_all split: if_splits)
  from firstBody_Some [OF fb] obtain k t cs' where
    "b = [k]" "k < length cs" "cs ! k = Element t cs'" "t = ''BODY'' \<or> t = ''FRAMESET''"
    by auto
  with Element html show ?thesis
    by (auto simp: tagName_def)
qed

lemma body_ancestors_not_candidates:
  assumes "documentBody doc = Some b" and "a = b \<or> isAncestorOf a b"
  shows "a \<notin> set (querySelectorAll doc candidateTags)"
proof -
  from documentBody_tags [OF assms(1)] obtain i where
    root: "tagName doc [] = ''HTML''" and b: "b = [i]"
    and tb: "tagName doc b = ''BODY'' \<or> tagName doc b = ''FRAMESET''"
    by auto
  from assms(2) b have "a = b \<or> a = []"
    by (auto simp: isAncestorOf_def)
  with root tb have "tagName doc a \<notin> set candidateTags"
    by (auto simp: candidateTags_def)
  then show ?thesis
    by (simp add: querySelectorAll_def)
qed

lemma separated_snoc:
  assumes "separated found" "el \<notin> set found" "\<forall>f \<in> set found. \<not> isAncestorOf el f"
  shows "separated (found @ [el])"
  unfolding separated_def
proof (intro conjI allI impI)
  from assms show "distinct (found @ [el])"
    by (simp add: separated_def)
next
  fix i j
  assume ij: "i < j \<and> j < length (found @ [el])"
  show "\<not> isAncestorOf ((found @ [el]) ! j) ((found @ [el]) ! i)"
  proof (cases "j < length found")
    case True
    with ij assms(1) show ?thesis
      by (simp add: separated_def nth_append)
  next
    case False
    with ij have j: "j = length found" and i: "i < length found" by simp_all
    then have "found ! i \<in> set found" by simp
    with assms(3) j i show ?thesis
      by (simp add: nth_append)
  qed
qed

lemma matchBlocks_separated:
  assumes "set cands \<subseteq> set (querySelectorAll doc candidateTags)"
  shows "separated found \<Longrightarrow> set found \<subseteq> used \<Longrightarrow>
     (\<forall>f \<in> set found. \<forall>a. isAncestorOf a f \<longrightarrow> a \<in> used \<or> a \<notin> set cands) \<Longrightarrow>
     separated (matchBlocks lc doc cands textBlocks found used)"
proof (induction textBlocks arbitrary: found used)
  case Nil
  then show ?case by simp
next
  case (Cons t textBlocks)
  show ?case
  proof (cases "fst (scanCandidates lc doc used (normalizeText lc t) cands None 0)")
    case None
    with Cons show ?thesis by simp
  next
    case (Some el)
    from scanCandidates_result [OF Some] have el: "el \<in> set cands" "el \<notin> used"
      by (simp_all add: eligible_def)
    let ?used = "markAncestors (documentBody doc) (parentElement el) (insert el used)"
    have mono: "\<And>x. x \<in> insert el used \<Longrightarrow> x \<in> ?used"
      by (rule markAncestors_mono)
    from el Cons.prems(2) have notin: "el \<notin> set found" by auto
    from el Cons.prems(3) have "\<forall>f \<in> set found. \<not> isAncestorOf el f" by blast
    with Cons.prems(1) notin have sep: "separated (found @ [el])"
      by (rule separated_snoc)
    from Cons.prems(2) mono have sub: "set (found @ [el]) \<subseteq> ?used"
      by auto
    have anc: "\<forall>f \<in> set (found @ [el]). \<forall>a. isAncestorOf a f \<longrightarrow> a \<in> ?used \<or> a \<notin> set cands"
    proof (intro ballI allI impI)
      fix f a
      assume f: "f \<in> set (found @ [el])" and a: "isAncestorOf a f"
      show "a \<in> ?used \<or> a \<notin> set cands"
      proof (cases "f = el")
        case True
        from isAncestorOf_butlast [OF a] True
        have ne: "el \<noteq> []" and up: "a = butlast el \<or> isAncestorOf a (butlast el)"
          by simp_all
        from ne have pe: "parentElement el = Some (butlast el)"
          by (simp add: parentElement_def)
        from markAncestors_covers [OF up, of "documentBody doc" "insert el used"] pe
        have "a \<in> ?used \<or> (\<exists>b. documentBody doc = Some b \<and> (a = b \<or> isAncestorOf a b))"
          by simp
        with body_ancestors_not_candidates [of doc _ a] assms show ?thesis
          by blast
      next
        case False
        with f have "f \<in> set found" by simp
        with Cons.prems(3) a have "a \<in> used \<or> a \<notin> set cands" by blast
        with mono show ?thesis by auto
      qed
    qed
    from Cons.IH [OF sep sub anc] Some show ?thesis
      by simp
  qed
qed

subsection \<open>The example page, evaluated\<close>

lemma js_eq_iff: "js a = js b \<longleftrightarrow> a = b"
proof -
  have "inj (of_char :: char \<Rightarrow> nat)"
    by (rule injI) simp
  then show ?thesis
    by (simp add: js_def inj_map_eq_map)
qed

lemma exampleDoc_candidates:
  "querySelectorAll exampleDoc candidateTags = [[0, 0], [0, 0, 0], [0, 0, 2]]"
  by (simp add: exampleDoc_def querySelectorAll_def candidateTags_def tagName_def)

lemma exampleDoc_text:
  "elTextContent exampleDoc [0, 0, 0] = js ''Der Hund rennt schnell durch den Park''"
  "elTextContent exampleDoc [0, 0, 2] = js ''Die Katze sitzt ruhig auf dem Sofa''"
  by (simp_all add: exampleDoc_def elTextContent_def)

lemma exampleDoc_container:
  "isContainerElement exampleDoc [0, 0]"
  "\<not> isContainerElement exampleDoc [0, 0, 0]"
  "\<not> isContainerElement exampleDoc [0, 0, 2]"
  by (simp_all add: exampleDoc_def isContainerElement_def blockTags_def trim_def js_def isSpace_def)

lemma exampleDoc_normalized:
  "normalizeText (\<lambda>s. s) (js ''Der Hund rennt schnell durch den Park'')
     = js ''Der Hund rennt schnell durch den Park''"
  "normalizeText (\<lambda>s. s) (js ''Die Katze sitzt ruhig auf dem Sofa'')
     = js ''Die Katze sitzt ruhig auf dem Sofa''"
  by (simp_all add: normalizeText_def trim_def js_def isSpace_def)

lemma exampleDoc_scores:
  "textSimilarity (js ''Der Hund rennt schnell durch den Park'')
     (js ''Der Hund rennt schnell durch den Park heute'') = 7 / 8"
  "textSimilarity (js ''Die Katze sitzt ruhig auf dem Sofa'')
     (js ''Der Hund rennt schnell durch den Park heute'') = 0"
  "textSimilarity (js ''Der Hund rennt schnell durch den Park'')
     (js ''Die Katze sitzt ruhig auf dem Sofa'') = 0"
  "textSimilarity (js ''Die Katze sitzt ruhig auf dem Sofa'')
     (js ''Der Hund rennt schnell durch den Park'') = 0"
  "textSimilarity (js ''Der Hund rennt schnell durch den Park'')
     (js ''Der Hund schwimmt im See'') = 2 / 9"
  "textSimilarity (js ''Die Katze sitzt ruhig auf dem Sofa'')
     (js ''Der Hund schwimmt im See'') = 0"
  by (simp_all add: textSimilarity_def split_ws.simps js_def isSpace_def newSet_def Let_def)

lemma exampleDoc_body: "documentBody exampleDoc = Some [0]"
  by (simp add: exampleDoc_def)

section \<open>Claims about the matcher\<close>

text \<open>
  C4. For one block, started as the source starts it (no best match, best score 0):
  if some eligible candidate is an exact match, the scan returns the first such
  candidate in document order with score 1, whatever came before it. If none is, and
  some eligible candidate scores above 0.85, the scan returns an eligible candidate of
  the highest score, which is above 0.85. If none scores above 0.85, the scan returns
  no match, and the outer loop goes on to the next block with the found list and the
  used set unchanged; with a match, the element is appended to the found list.
\<close>

theorem scanCandidates_first_exact_else_best_fuzzy:
  "(\<forall>el. find (\<lambda>el. eligible doc used el \<and> exactMatch lc doc target el) cands = Some el \<longrightarrow>
        scanCandidates lc doc used target cands None 0 = (Some el, 1)) \<and>
   (find (\<lambda>el. eligible doc used el \<and> exactMatch lc doc target el) cands = None \<longrightarrow>
      (\<exists>el \<in> set cands. eligible doc used el \<and> score lc doc target el > 85 / 100) \<longrightarrow>
      (\<exists>el \<in> set cands.
          scanCandidates lc doc used target cands None 0 = (Some el, score lc doc target el) \<and>
          eligible doc used el \<and> score lc doc target el > 85 / 100 \<and>
          (\<forall>e \<in> set cands. eligible doc used e \<longrightarrow> score lc doc target e \<le> score lc doc target el))) \<and>
   (find (\<lambda>el. eligible doc used el \<and> exactMatch lc doc target el) cands = None \<longrightarrow>
      (\<forall>el \<in> set cands. eligible doc used el \<longrightarrow> score lc doc target el \<le> 85 / 100) \<longrightarrow>
      scanCandidates lc doc used target cands None 0 = (None, 0)) \<and>
   (fst (scanCandidates lc doc used (normalizeText lc targetText) cands None 0) = None \<longrightarrow>
      matchBlocks lc doc cands (targetText # rest) found used
        = matchBlocks lc doc cands rest found used) \<and>
   (\<forall>el. fst (scanCandidates lc doc used (normalizeText lc targetText) cands None 0) = Some el \<longrightarrow>
      matchBlocks lc doc cands (targetText # rest) found used
        = matchBlocks lc doc cands rest (found @ [el])
            (markAncestors (documentBody doc) (parentElement el) (insert el used)))"
proof (intro conjI allI impI)
  fix el
  assume "find (\<lambda>el. eligible doc used el \<and> exactMatch lc doc target el) cands = Some el"
  then show "scanCandidates lc doc used target cands None 0 = (Some el, 1)"
    by (rule scanCandidates_exact)
next
  assume none: "find (\<lambda>el. eligible doc used el \<and> exactMatch lc doc target el) cands = None"
    and ex: "\<exists>el \<in> set cands. eligible doc used el \<and> score lc doc target el > 85 / 100"
  from none have "\<forall>el \<in> set cands. eligible doc used el \<longrightarrow> \<not> exactMatch lc doc target el"
    by (auto simp: find_None_iff)
  from scanCandidates_fuzzy [OF this, of None 0]
  obtain bm' bs' where r: "scanCandidates lc doc used target cands None 0 = (bm', bs')"
    and up: "\<forall>el \<in> set cands. eligible doc used el \<and> score lc doc target el > 85 / 100 \<longrightarrow>
                score lc doc target el \<le> bs'"
    and ch: "(bm', bs') = (None, 0) \<or>
            (\<exists>el \<in> set cands. bm' = Some el \<and> eligible doc used el \<and> score lc doc target el = bs' \<and>
                bs' > 85 / 100 \<and> bs' > 0)"
    by blast
  from ex up have "bs' > 85 / 100" by force
  with ch obtain el where el: "el \<in> set cands" "bm' = Some el" "eligible doc used el"
      "score lc doc target el = bs'" "bs' > 85 / 100"
    by auto
  have "\<forall>e \<in> set cands. eligible doc used e \<longrightarrow> score lc doc target e \<le> score lc doc target el"
  proof (intro ballI impI)
    fix e assume e: "e \<in> set cands" "eligible doc used e"
    show "score lc doc target e \<le> score lc doc target el"
    proof (cases "score lc doc target e > 85 / 100")
      case True
      with e up el show ?thesis by simp
    next
      case False
      with el show ?thesis by simp
    qed
  qed
  with r el show "\<exists>el \<in> set cands.
          scanCandidates lc doc used target cands None 0 = (Some el, score lc doc target el) \<and>
          eligible doc used el \<and> score lc doc target el > 85 / 100 \<and>
          (\<forall>e \<in> set cands. eligible doc used e \<longrightarrow> score lc doc target e \<le> score lc doc target el)"
    by (intro bexI [of _ el]) simp_all
next
  assume none: "find (\<lambda>el. eligible doc used el \<and> exactMatch lc doc target el) cands = None"
    and low: "\<forall>el \<in> set cands. eligible doc used el \<longrightarrow> score lc doc target el \<le> 85 / 100"
  from none have "\<forall>el \<in> set cands. eligible doc used el \<longrightarrow> \<not> exactMatch lc doc target el"
    by (auto simp: find_None_iff)
  from scanCandidates_fuzzy [OF this, of None 0]
  obtain bm' bs' where r: "scanCandidates lc doc used target cands None 0 = (bm', bs')"
    and ch: "(bm', bs') = (None, 0) \<or>
            (\<exists>el \<in> set cands. bm' = Some el \<and> eligible doc used el \<and> score lc doc target el = bs' \<and>
                bs' > 85 / 100 \<and> bs' > 0)"
    by blast
  from ch low have "(bm', bs') = (None, 0)" by force
  with r show "scanCandidates lc doc used target cands None 0 = (None, 0)" by simp
next
  assume "fst (scanCandidates lc doc used (normalizeText lc targetText) cands None 0) = None"
  then show "matchBlocks lc doc cands (targetText # rest) found used
        = matchBlocks lc doc cands rest found used"
    by simp
next
  fix el
  assume "fst (scanCandidates lc doc used (normalizeText lc targetText) cands None 0) = Some el"
  then show "matchBlocks lc doc cands (targetText # rest) found used
        = matchBlocks lc doc cands rest (found @ [el])
            (markAncestors (documentBody doc) (parentElement el) (insert el used))"
    by simp
qed

theorem scanCandidates_first_exact_else_best_fuzzy_witness:
  "scanCandidates (\<lambda>s. s) exampleDoc {} (js ''Die Katze sitzt ruhig auf dem Sofa'')
      [[0, 0], [0, 0, 0], [0, 0, 2]] None 0 = (Some [0, 0, 2], 1) \<and>
   scanCandidates (\<lambda>s. s) exampleDoc {} (js ''Der Hund rennt schnell durch den Park heute'')
      [[0, 0], [0, 0, 0], [0, 0, 2]] None 0 = (Some [0, 0, 0], 7 / 8) \<and>
   scanCandidates (\<lambda>s. s) exampleDoc {} (js ''Der Hund schwimmt im See'')
      [[0, 0], [0, 0, 0], [0, 0, 2]] None 0 = (None, 0) \<and>
   matchBlocks (\<lambda>s. s) exampleDoc [[0, 0], [0, 0, 0], [0, 0, 2]]
      [js ''Der Hund schwimmt im See''] [] {} = []"
proof -
  let ?cands = "[[0, 0], [0, 0, 0], [0, 0, 2 :: nat]]"
  let ?exact = "\<lambda>target el. eligible exampleDoc {} el \<and> exactMatch (\<lambda>s. s) exampleDoc target el"
  note ev = eligible_def exactMatch_def score_def exampleDoc_container exampleDoc_text
    exampleDoc_normalized exampleDoc_scores js_eq_iff
  have e1: "find (?exact (js ''Die Katze sitzt ruhig auf dem Sofa'')) ?cands = Some [0, 0, 2]"
    by (simp add: ev)
  have n2: "find (?exact (js ''Der Hund rennt schnell durch den Park heute'')) ?cands = None"
    by (simp add: ev)
  have f2: "\<exists>el \<in> set ?cands. eligible exampleDoc {} el \<and>
      score (\<lambda>s. s) exampleDoc (js ''Der Hund rennt schnell durch den Park heute'') el > 85 / 100"
    by (simp add: ev)
  have n3: "find (?exact (js ''Der Hund schwimmt im See'')) ?cands = None"
    by (simp add: ev)
  have l3: "\<forall>el \<in> set ?cands. eligible exampleDoc {} el \<longrightarrow>
      score (\<lambda>s. s) exampleDoc (js ''Der Hund schwimmt im See'') el \<le> 85 / 100"
    by (simp add: ev)
  have t3: "normalizeText (\<lambda>s. s) (js ''Der Hund schwimmt im See'') = js ''Der Hund schwimmt im See''"
    by (simp add: normalizeText_def trim_def js_def isSpace_def)
  note main = scanCandidates_first_exact_else_best_fuzzy
  from main [of exampleDoc "{}" "\<lambda>s. s" "js ''Die Katze sitzt ruhig auf dem Sofa''" ?cands] e1
  have r1: "scanCandidates (\<lambda>s. s) exampleDoc {} (js ''Die Katze sitzt ruhig auf dem Sofa'')
      ?cands None 0 = (Some [0, 0, 2], 1)"
    by blast
  from main [of exampleDoc "{}" "\<lambda>s. s" "js ''Der Hund rennt schnell durch den Park heute''" ?cands]
    n2 f2
  obtain el where el: "el \<in> set ?cands"
      "scanCandidates (\<lambda>s. s) exampleDoc {} (js ''Der Hund rennt schnell durch den Park heute'')
        ?cands None 0
        = (Some el, score (\<lambda>s. s) exampleDoc (js ''Der Hund rennt schnell durch den Park heute'') el)"
      "eligible exampleDoc {} el"
      "score (\<lambda>s. s) exampleDoc (js ''Der Hund rennt schnell durch den Park heute'') el > 85 / 100"
    by blast
  from el(1,3,4) have "el = [0, 0, 0]"
    by (auto simp: ev)
  with el(2) have r2: "scanCandidates (\<lambda>s. s) exampleDoc {}
      (js ''Der Hund rennt schnell durch den Park heute'') ?cands None 0 = (Some [0, 0, 0], 7 / 8)"
    by (simp add: ev)
  from main [of exampleDoc "{}" "\<lambda>s. s" "js ''Der Hund schwimmt im See''" ?cands] n3 l3
  have r3: "scanCandidates (\<lambda>s. s) exampleDoc {} (js ''Der Hund schwimmt im See'')
      ?cands None 0 = (None, 0)"
    by blast
  from main [of exampleDoc "{}" "\<lambda>s. s" "js ''Der Hund schwimmt im See''" ?cands
      "js ''Der Hund schwimmt im See''" "[]" "[]"] r3 t3
  have r4: "matchBlocks (\<lambda>s. s) exampleDoc ?cands [js ''Der Hund schwimmt im See''] [] {} = []"
    by simp
  from r1 r2 r3 r4 show ?thesis
    by blast
qed

text \<open>
  C1. The list that \<open>findOriginalElementsByText\<close> returns has no element twice, and no
  element of it is an ancestor of an element that comes earlier. The mechanism: a scan
  only returns a candidate that is not in the used set; after a match the used set
  contains the element, everything it contained before, and every ancestor of the
  element except \<open>document.body\<close> and the ancestors of the body.
\<close>

theorem matcher_results_distinct_and_no_ancestor:
  "distinct (findOriginalElementsByText lc doc textBlocks) \<and>
   (\<forall>i j. i < j \<and> j < length (findOriginalElementsByText lc doc textBlocks) \<longrightarrow>
      \<not> isAncestorOf (findOriginalElementsByText lc doc textBlocks ! j)
                      (findOriginalElementsByText lc doc textBlocks ! i)) \<and>
   (\<forall>m. fst (scanCandidates lc doc usedElements target candidates None 0) = Some m \<longrightarrow>
      m \<in> set candidates \<and> m \<notin> usedElements) \<and>
   insert el usedElements
     \<subseteq> markAncestors (documentBody doc) (parentElement el) (insert el usedElements) \<and>
   (\<forall>a. isAncestorOf a el \<longrightarrow>
      a \<in> markAncestors (documentBody doc) (parentElement el) (insert el usedElements) \<or>
      (\<exists>b. documentBody doc = Some b \<and> (a = b \<or> isAncestorOf a b)))"
proof -
  have "separated (findOriginalElementsByText lc doc textBlocks)"
    unfolding findOriginalElementsByText_def
    by (rule matchBlocks_separated) (simp_all add: separated_def)
  then have p1: "distinct (findOriginalElementsByText lc doc textBlocks)"
    and p2: "\<forall>i j. i < j \<and> j < length (findOriginalElementsByText lc doc textBlocks) \<longrightarrow>
      \<not> isAncestorOf (findOriginalElementsByText lc doc textBlocks ! j)
                      (findOriginalElementsByText lc doc textBlocks ! i)"
    by (simp_all add: separated_def)
  have p3: "\<forall>m. fst (scanCandidates lc doc usedElements target candidates None 0) = Some m \<longrightarrow>
      m \<in> set candidates \<and> m \<notin> usedElements"
    using scanCandidates_result [of lc doc usedElements target candidates None 0]
    by (auto simp: eligible_def)
  have p4: "insert el usedElements
     \<subseteq> markAncestors (documentBody doc) (parentElement el) (insert el usedElements)"
    using markAncestors_mono by blast
  have p5: "\<forall>a. isAncestorOf a el \<longrightarrow>
      a \<in> markAncestors (documentBody doc) (parentElement el) (insert el usedElements) \<or>
      (\<exists>b. documentBody doc = Some b \<and> (a = b \<or> isAncestorOf a b))"
  proof (intro allI impI)
    fix a
    assume a: "isAncestorOf a el"
    from isAncestorOf_butlast [OF a]
    have ne: "el \<noteq> []" and up: "a = butlast el \<or> isAncestorOf a (butlast el)"
      by simp_all
    from ne have pe: "parentElement el = Some (butlast el)"
      by (simp add: parentElement_def)
    from markAncestors_covers [OF up, of "documentBody doc" "insert el usedElements"] pe
    show "a \<in> markAncestors (documentBody doc) (parentElement el) (insert el usedElements) \<or>
        (\<exists>b. documentBody doc = Some b \<and> (a = b \<or> isAncestorOf a b))"
      by simp
  qed
  from p1 p2 p3 p4 p5 show ?thesis
    by (intro conjI)
qed

theorem matcher_results_distinct_and_no_ancestor_witness:
  "findOriginalElementsByText (\<lambda>s. s) exampleDoc
      [js ''Der Hund rennt schnell durch den Park'', js ''Die Katze sitzt ruhig auf dem Sofa'']
     = [[0, 0, 0], [0, 0, 2]] \<and>
   findOriginalElementsByText (\<lambda>s. s) exampleDoc
      [js ''Der Hund rennt schnell durch den Park'', js ''Der Hund rennt schnell durch den Park'']
     = [[0, 0, 0]] \<and>
   distinct [[0, 0, 0], [0, 0, 2 :: nat]] \<and>
   \<not> isAncestorOf [0, 0, 2] [0, 0, 0] \<and>
   isAncestorOf [0, 0] [0, 0, 0] \<and>
   [0, 0] \<in> markAncestors (documentBody exampleDoc) (parentElement [0, 0, 0]) (insert [0, 0, 0] {})"
proof -
  let ?t1 = "js ''Der Hund rennt schnell durch den Park''"
  let ?t2 = "js ''Die Katze sitzt ruhig auf dem Sofa''"
  note ev = findOriginalElementsByText_def exampleDoc_candidates exampleDoc_container
    exampleDoc_text exampleDoc_normalized exampleDoc_scores exampleDoc_body parentElement_def
    js_eq_iff
  have r1: "findOriginalElementsByText (\<lambda>s. s) exampleDoc [?t1, ?t2] = [[0, 0, 0], [0, 0, 2]]"
    by (simp add: ev)
  have r2: "findOriginalElementsByText (\<lambda>s. s) exampleDoc [?t1, ?t1] = [[0, 0, 0]]"
    by (simp add: ev)
  have anc: "isAncestorOf [0, 0] [0, 0, 0 :: nat]"
    by (simp add: isAncestorOf_def)
  have nb: "\<not> (\<exists>b. documentBody exampleDoc = Some b \<and> ([0, 0] = b \<or> isAncestorOf [0, 0] b))"
    by (simp add: exampleDoc_body isAncestorOf_def)
  note main = matcher_results_distinct_and_no_ancestor
     [of "\<lambda>s. s" exampleDoc "[?t1, ?t2]" "{}" "[]" "[]" "[0, 0, 0]"]
  from main [THEN conjunct1] have d: "distinct [[0, 0, 0], [0, 0, 2 :: nat]]"
    by (simp only: r1)
  from main [THEN conjunct2, THEN conjunct1, rule_format, of 0 1]
  have na: "\<not> isAncestorOf [0, 0, 2] [0, 0, 0 :: nat]"
    by (simp add: r1)
  from main [THEN conjunct2, THEN conjunct2, THEN conjunct2, THEN conjunct2, rule_format, OF anc] nb
  have m: "[0, 0] \<in> markAncestors (documentBody exampleDoc) (parentElement [0, 0, 0]) (insert [0, 0, 0] {})"
    by blast
  from r1 r2 d na anc m show ?thesis
    by (intro conjI)
qed

section \<open>Properties of the batch pipeline\<close>

lemma concat_makeBatches: "concat (makeBatches bs) = bs"
  by (induction bs rule: makeBatches.induct) auto

lemma makeBatches_sizes: "batch \<in> set (makeBatches bs) \<Longrightarrow> 1 \<le> length batch \<and> length batch \<le> 2"
  by (induction bs rule: makeBatches.induct) auto

lemma translateAll_eq:
  "translateAll api k batches
     = map (\<lambda>i. translateBatch (batches ! i) (api (k + i + 1))) [0..<length batches]"
proof (induction batches arbitrary: k)
  case Nil
  then show ?case by simp
next
  case (Cons batch batches)
  have "[0..<length (batch # batches)] = 0 # map Suc [0..<length batches]"
    by (simp add: upt_conv_Cons map_Suc_upt del: upt_Suc)
  then show ?case
    by (simp add: Cons.IH comp_def del: upt_Suc)
qed

lemma translateBatch_failed: "failed (translateBatch batch r) = batchFails r"
  by (cases r) (simp_all add: translateBatch_def batchFails_def)

lemma translateBatch_fallback:
  "batchFails r \<Longrightarrow>
     batch_blocks (translateBatch batch r) = map (\<lambda>b. \<lparr>original = b, translated = b\<rparr>) batch"
  by (cases r) (simp_all add: translateBatch_def batchFails_def)

section \<open>Claims about the batch pipeline\<close>

text \<open>
  C5. With an API key, \<open>handleTranslationRequest\<close> always returns a result: no
  exception escapes, whatever the replies to the batches are. \<open>totalBatches\<close> is the
  number of batches dispatched (the blocks two by two, in order), \<open>failedBatches\<close> is
  the number of batches whose request failed, and the returned blocks are the
  contributions of the batches in batch order, where a failed batch contributes its own
  blocks with the original text as the translation.
\<close>

theorem partial_batch_failure:
  assumes "apiKey \<noteq> []"
  shows "\<exists>res. handleTranslationRequest apiKey api payload_blocks = Inr res \<and>
     totalBatches res = length (makeBatches payload_blocks) \<and>
     failedBatches res
       = length (filter (\<lambda>i. batchFails (api (i + 1))) [0..<length (makeBatches payload_blocks)]) \<and>
     blocks res
       = concat (map (\<lambda>i. batch_blocks (translateBatch (makeBatches payload_blocks ! i) (api (i + 1))))
                  [0..<length (makeBatches payload_blocks)]) \<and>
     (\<forall>i < length (makeBatches payload_blocks). batchFails (api (i + 1)) \<longrightarrow>
        batch_blocks (translateBatch (makeBatches payload_blocks ! i) (api (i + 1)))
          = map (\<lambda>b. \<lparr>original = b, translated = b\<rparr>) (makeBatches payload_blocks ! i)) \<and>
     concat (makeBatches payload_blocks) = payload_blocks \<and>
     (\<forall>batch \<in> set (makeBatches payload_blocks). 1 \<le> length batch \<and> length batch \<le> 2)"
proof -
  let ?batches = "makeBatches payload_blocks"
  let ?res = "\<lparr>blocks = concat (map batch_blocks (translateAll api 0 ?batches)),
                failedBatches = length (filter failed (translateAll api 0 ?batches)),
                totalBatches = length ?batches\<rparr>"
  from assms have r: "handleTranslationRequest apiKey api payload_blocks = Inr ?res"
    by (simp add: handleTranslationRequest_def Let_def)
  have f: "failedBatches ?res
       = length (filter (\<lambda>i. batchFails (api (i + 1))) [0..<length ?batches])"
    by (simp add: translateAll_eq filter_map comp_def translateBatch_failed)
  have b: "blocks ?res
       = concat (map (\<lambda>i. batch_blocks (translateBatch (?batches ! i) (api (i + 1))))
                  [0..<length ?batches])"
    by (simp add: translateAll_eq comp_def)
  have s: "\<forall>batch \<in> set ?batches. 1 \<le> length batch \<and> length batch \<le> 2"
    using makeBatches_sizes by blast
  from r f b s show ?thesis
    by (intro exI [of _ ?res]) (simp add: translateBatch_fallback concat_makeBatches)
qed


theorem partial_batch_failure_witness:
  "js ''sk-test'' \<noteq> [] \<and>
   handleTranslationRequest (js ''sk-test'')
      (\<lambda>n. if n = 1 then Parsed [\<lparr>original = js ''One'', translated = js ''#1: Eins''\<rparr>,
                                      \<lparr>original = js ''Two'', translated = js ''Zwei''\<rparr>]
            else FetchThrows)
      [js ''One'', js ''Two'', js ''Three'']
     = Inr \<lparr>blocks = [\<lparr>original = js ''One'', translated = js ''Eins''\<rparr>,
                        \<lparr>original = js ''Two'', translated = js ''Zwei''\<rparr>,
                        \<lparr>original = js ''Three'', translated = js ''Three''\<rparr>],
             failedBatches = 1, totalBatches = 2\<rparr>"
proof -
  let ?api = "\<lambda>n :: nat. if n = 1 then Parsed [\<lparr>original = js ''One'', translated = js ''#1: Eins''\<rparr>,
                                      \<lparr>original = js ''Two'', translated = js ''Zwei''\<rparr>]
            else FetchThrows"
  have k: "js ''sk-test'' \<noteq> []"
    by (simp add: js_def)
  from partial_batch_failure [OF k, of ?api "[js ''One'', js ''Two'', js ''Three'']"]
  obtain res where res: "handleTranslationRequest (js ''sk-test'') ?api [js ''One'', js ''Two'', js ''Three'']
      = Inr res" and "totalBatches res = 2"
    by auto
  have "handleTranslationRequest (js ''sk-test'') ?api [js ''One'', js ''Two'', js ''Three'']
     = Inr \<lparr>blocks = [\<lparr>original = js ''One'', translated = js ''Eins''\<rparr>,
                        \<lparr>original = js ''Two'', translated = js ''Zwei''\<rparr>,
                        \<lparr>original = js ''Three'', translated = js ''Three''\<rparr>],
             failedBatches = 1, totalBatches = 2\<rparr>"
    by (simp add: handleTranslationRequest_def translateBatch_def stripNumberPrefix_def
          isDigit_def isSpace_def js_def Let_def)
  with k res show ?thesis
    by simp
qed

section \<open>Properties of the element store\<close>

lemma updChildren_simps:
  "updChildren el new [] = []"
  "updChildren el new ((i, items) # rest)
     = (if i = el then (i, new) else (i, items)) # updChildren el new rest"
  by (simp_all add: updChildren_def)

lemma keys_updChildren: "fst ` set (updChildren el new p) = fst ` set p"
proof -
  have "map fst (updChildren el new p) = map fst p"
    by (induction p) (auto simp: updChildren_simps)
  then have "set (map fst (updChildren el new p)) = set (map fst p)"
    by simp
  then show ?thesis
    by simp
qed

lemma replaceChildren_cases:
  "replaceChildren el new p = (if el \<in> fst ` set p then updChildren el new p else p @ [(el, new)])"
  by (simp add: replaceChildren_def updChildren_def)

lemma itemText_plain:
  "\<forall>r. Sub r \<notin> set new \<Longrightarrow>
     concat (map (itemText t) new) = concat (map (itemText t') new)"
proof (induction new)
  case Nil
  then show ?case by simp
next
  case (Cons a new)
  then show ?case by (cases a) auto
qed

lemma itemDescendants_plain:
  "\<forall>r. Sub r \<notin> set new \<Longrightarrow> \<Union> (set (map (itemDescendants below) new)) = {}"
proof (induction new)
  case Nil
  then show ?case by simp
next
  case (Cons a new)
  then show ?case by (cases a) auto
qed

lemma getTextContent_absent: "el \<notin> fst ` set p \<Longrightarrow> getTextContent p el = []"
  by (induction p) auto

lemma descendants_absent: "el \<notin> fst ` set p \<Longrightarrow> descendants p el = {}"
  by (induction p) auto

text \<open>The new text of the element.\<close>

lemma getTextContent_updChildren_same:
  "el \<in> fst ` set p \<Longrightarrow> \<forall>r. Sub r \<notin> set new \<Longrightarrow>
     getTextContent (updChildren el new p) el = concat (map (itemText (\<lambda>r. [])) new)"
proof (induction p)
  case Nil
  then show ?case by simp
next
  case (Cons a p)
  obtain i items where a: "a = (i, items)" by (cases a)
  show ?case
  proof (cases "i = el")
    case True
    with a Cons.prems(2) itemText_plain [of new "getTextContent (updChildren el new p)" "\<lambda>r. []"]
    show ?thesis by (simp add: updChildren_simps)
  next
    case False
    with a Cons show ?thesis by (simp add: updChildren_simps)
  qed
qed

lemma getTextContent_append_same:
  "el \<notin> fst ` set p \<Longrightarrow> \<forall>r. Sub r \<notin> set new \<Longrightarrow>
     getTextContent (p @ [(el, new)]) el = concat (map (itemText (\<lambda>r. [])) new)"
proof (induction p)
  case Nil
  with itemText_plain [of new "\<lambda>el. []" "\<lambda>r. []"] show ?case by simp
next
  case (Cons a p)
  then show ?case by (cases a) auto
qed

lemma getTextContent_replaceChildren_same:
  "\<forall>r. Sub r \<notin> set new \<Longrightarrow>
     getTextContent (replaceChildren el new p) el = concat (map (itemText (\<lambda>r. [])) new)"
  by (simp add: replaceChildren_cases getTextContent_updChildren_same getTextContent_append_same)

text \<open>The text of the other elements.\<close>

lemma getTextContent_updChildren_other:
  "x \<noteq> el \<Longrightarrow> el \<notin> descendants p x \<Longrightarrow>
     getTextContent (updChildren el new p) x = getTextContent p x"
proof (induction p arbitrary: x)
  case Nil
  then show ?case by (simp add: updChildren_simps)
next
  case (Cons a p)
  obtain i items where a: "a = (i, items)" by (cases a)
  show ?case
  proof (cases "i = x")
    case True
    have "concat (map (itemText (getTextContent (updChildren el new p))) items)
            = concat (map (itemText (getTextContent p)) items)"
    proof (rule arg_cong [where f = concat], rule map_cong [OF refl])
      fix it assume it: "it \<in> set items"
      show "itemText (getTextContent (updChildren el new p)) it = itemText (getTextContent p) it"
      proof (cases it)
        case (Leaf c)
        then show ?thesis by simp
      next
        case (Sub r)
        with it Cons.prems(2) a True have "r \<noteq> el" "el \<notin> descendants p r"
          by auto
        with Sub Cons.IH show ?thesis by simp
      qed
    qed
    with a True Cons.prems(1) show ?thesis
      by (simp add: updChildren_simps)
  next
    case False
    with a Cons.prems have "el \<notin> descendants p x" by simp
    with a False Cons.prems(1) Cons.IH show ?thesis
      by (simp add: updChildren_simps)
  qed
qed

lemma getTextContent_append_other:
  "wellFormed p \<Longrightarrow> el \<notin> fst ` set p \<Longrightarrow> x \<noteq> el \<Longrightarrow>
     getTextContent (p @ [(el, new)]) x = getTextContent p x"
proof (induction p arbitrary: x)
  case Nil
  then show ?case by simp
next
  case (Cons a p)
  obtain i items where a: "a = (i, items)" by (cases a)
  from Cons.prems a have wf: "wellFormed p" and el: "el \<notin> fst ` set p"
    and refs: "\<forall>r. Sub r \<in> set items \<longrightarrow> r \<in> fst ` set p"
    by (auto simp: list_all_iff split: item.splits)
  have "concat (map (itemText (getTextContent (p @ [(el, new)]))) items)
          = concat (map (itemText (getTextContent p)) items)"
  proof (rule arg_cong [where f = concat], rule map_cong [OF refl])
    fix it assume it: "it \<in> set items"
    show "itemText (getTextContent (p @ [(el, new)])) it = itemText (getTextContent p) it"
    proof (cases it)
      case (Leaf c)
      then show ?thesis by simp
    next
      case (Sub r)
      with it refs el have "r \<noteq> el" by auto
      with Sub Cons.IH [OF wf el] show ?thesis by simp
    qed
  qed
  with a Cons.IH [OF wf el] Cons.prems(3) show ?case
    by simp
qed

lemma getTextContent_replaceChildren_other:
  "wellFormed p \<Longrightarrow> x \<noteq> el \<Longrightarrow> \<not> contains p x el \<Longrightarrow>
     getTextContent (replaceChildren el new p) x = getTextContent p x"
  by (simp add: replaceChildren_cases contains_def getTextContent_updChildren_other
        getTextContent_append_other)

lemma plain_list_all:
  "\<forall>r. Sub r \<notin> set new \<Longrightarrow> list_all (\<lambda>it. case it of Leaf c \<Rightarrow> True | Sub r \<Rightarrow> r \<in> K) new"
  by (auto simp: list_all_iff split: item.splits)

lemma refs_mono:
  "list_all (\<lambda>it. case it of Leaf c \<Rightarrow> True | Sub r \<Rightarrow> r \<in> K) items \<Longrightarrow> K \<subseteq> K' \<Longrightarrow>
     list_all (\<lambda>it. case it of Leaf c \<Rightarrow> True | Sub r \<Rightarrow> r \<in> K') items"
  by (auto simp: list_all_iff split: item.splits)

lemma wellFormed_updChildren:
  "wellFormed p \<Longrightarrow> \<forall>r. Sub r \<notin> set new \<Longrightarrow> wellFormed (updChildren el new p)"
proof (induction p)
  case Nil
  then show ?case by (simp add: updChildren_simps)
next
  case (Cons a p)
  obtain i items where a: "a = (i, items)" by (cases a)
  with Cons plain_list_all [of new "fst ` set p"] show ?case
    by (auto simp: updChildren_simps keys_updChildren)
qed

lemma wellFormed_append:
  "wellFormed p \<Longrightarrow> el \<notin> fst ` set p \<Longrightarrow> \<forall>r. Sub r \<notin> set new \<Longrightarrow>
     wellFormed (p @ [(el, new)])"
proof (induction p)
  case Nil
  with plain_list_all [of new "{}"] show ?case by simp
next
  case (Cons a p)
  obtain i items where a: "a = (i, items)" by (cases a)
  with Cons show ?case
    by (auto simp: list_all_iff split: item.splits)
qed

lemma wellFormed_replaceChildren:
  "wellFormed p \<Longrightarrow> \<forall>r. Sub r \<notin> set new \<Longrightarrow> wellFormed (replaceChildren el new p)"
  by (simp add: replaceChildren_cases wellFormed_updChildren wellFormed_append)

lemma itemDescendants_mono:
  "(\<And>x. below x \<subseteq> below' x) \<Longrightarrow> itemDescendants below it \<subseteq> itemDescendants below' it"
  by (cases it) auto

lemma descendants_updChildren_same:
  "\<forall>r. Sub r \<notin> set new \<Longrightarrow> descendants (updChildren el new p) el = {}"
proof (induction p)
  case Nil
  then show ?case by (simp add: updChildren_simps)
next
  case (Cons a p)
  obtain i items where a: "a = (i, items)" by (cases a)
  with Cons itemDescendants_plain [of new "descendants (updChildren el new p)"] show ?case
    by (simp add: updChildren_simps)
qed

lemma descendants_updChildren_mono:
  "\<forall>r. Sub r \<notin> set new \<Longrightarrow> descendants (updChildren el new p) x \<subseteq> descendants p x"
proof (induction p arbitrary: x)
  case Nil
  then show ?case by (simp add: updChildren_simps)
next
  case (Cons a p)
  obtain i items where a: "a = (i, items)" by (cases a)
  have ih: "\<And>y. descendants (updChildren el new p) y \<subseteq> descendants p y"
    using Cons by simp
  show ?case
  proof (cases "i = el")
    case True
    with a ih Cons.prems itemDescendants_plain [of new "descendants (updChildren el new p)"]
    show ?thesis
      by (simp add: updChildren_simps)
  next
    case False
    have "\<Union> (set (map (itemDescendants (descendants (updChildren el new p))) items))
            \<subseteq> \<Union> (set (map (itemDescendants (descendants p)) items))"
      using itemDescendants_mono [of "descendants (updChildren el new p)" "descendants p", OF ih]
      by auto
    with a False ih show ?thesis
      by (simp add: updChildren_simps)
  qed
qed

lemma descendants_append:
  "el \<notin> fst ` set p \<Longrightarrow> \<forall>r. Sub r \<notin> set new \<Longrightarrow>
     descendants (p @ [(el, new)]) = descendants p"
proof (induction p)
  case Nil
  with itemDescendants_plain [of new "\<lambda>el. {}"] show ?case by simp
next
  case (Cons a p)
  then show ?case by (cases a) auto
qed

lemma descendants_replaceChildren_same:
  "\<forall>r. Sub r \<notin> set new \<Longrightarrow> descendants (replaceChildren el new p) el = {}"
  by (simp add: replaceChildren_cases descendants_updChildren_same descendants_append
        descendants_absent)

lemma descendants_replaceChildren_mono:
  "\<forall>r. Sub r \<notin> set new \<Longrightarrow> descendants (replaceChildren el new p) x \<subseteq> descendants p x"
  by (simp add: replaceChildren_cases descendants_updChildren_mono descendants_append)

lemma childNodes_replaceChildren_other:
  "x \<noteq> el \<Longrightarrow> childNodes (replaceChildren el new p) x = childNodes p x"
proof -
  assume x: "x \<noteq> el"
  have "map_of (updChildren el new p) x = map_of p x"
    using x by (induction p) (auto simp: updChildren_simps)
  moreover have "map_of (p @ [(el, new)]) x = map_of p x"
    using x by (simp add: map_add_def split: option.splits)
  ultimately show ?thesis
    by (simp add: replaceChildren_cases childNodes_def)
qed

lemma childNodes_replaceChildren_same: "childNodes (replaceChildren el new p) el = new"
proof (cases "el \<in> fst ` set p")
  case True
  then have "map_of (updChildren el new p) el = Some new"
    by (induction p) (force simp: updChildren_simps)+
  with True show ?thesis
    by (simp add: replaceChildren_cases childNodes_def)
next
  case False
  then have "map_of p el = None"
    by (simp add: map_of_eq_None_iff)
  with False show ?thesis
    by (simp add: replaceChildren_cases childNodes_def map_add_def split: option.splits)
qed

section \<open>Properties of the rewrite and of the restore\<close>

lemma earlierNotInside_index:
  "(\<forall>i j. i < j \<and> j < length els \<longrightarrow> \<not> contains p (els ! j) (els ! i)) \<Longrightarrow>
     earlierNotInside p els"
proof (induction els)
  case Nil
  then show ?case by simp
next
  case (Cons e es)
  have "\<forall>x \<in> set es. \<not> contains p x e"
  proof
    fix x assume "x \<in> set es"
    then obtain k where k: "k < length es" "es ! k = x"
      by (auto simp: in_set_conv_nth)
    with Cons.prems [rule_format, of 0 "Suc k"] show "\<not> contains p x e"
      by simp
  qed
  moreover have "\<forall>i j. i < j \<and> j < length es \<longrightarrow> \<not> contains p (es ! j) (es ! i)"
  proof (intro allI impI)
    fix i j assume "i < j \<and> j < length es"
    with Cons.prems [rule_format, of "Suc i" "Suc j"] show "\<not> contains p (es ! j) (es ! i)"
      by simp
  qed
  ultimately show ?case
    using Cons.IH by simp
qed

lemma earlierNotInside_mono:
  "earlierNotInside p els \<Longrightarrow> (\<And>x. descendants p' x \<subseteq> descendants p x) \<Longrightarrow>
     earlierNotInside p' els"
  by (induction els) (auto simp: contains_def)

lemma plain_rendered: "\<forall>r. Sub r \<notin> set (map Leaf cs)"
  by auto

lemma page_translateElement:
  "page (translateElement U el b s)
     = replaceChildren el
         (map Leaf (renderTranslatedBlock U (if translated b \<noteq> [] then translated b else original b)))
         (page s)"
  by (simp add: translateElement_def renderInto_def Let_def)

lemma attrs_translateElement:
  "x \<noteq> el \<Longrightarrow> classList (translateElement U el b s) x = classList s x \<and>
     dataset (translateElement U el b s) x = dataset s x \<and>
     listeners (translateElement U el b s) x = listeners s x"
  by (simp add: translateElement_def renderInto_def Let_def)

lemma applyLoop_props:
  assumes "wellFormed (page s)" "distinct els" "earlierNotInside (page s) els"
  shows "\<exists>s'. applyLoop U els bs origs s
               = (origs @ map (getTextContent (page s)) (take (min (length els) (length bs)) els), s') \<and>
     wellFormed (page s') \<and>
     (\<forall>x. descendants (page s') x \<subseteq> descendants (page s) x) \<and>
     (\<forall>e \<in> set (take (min (length els) (length bs)) els). descendants (page s') e = {}) \<and>
     (\<forall>x. x \<notin> set (take (min (length els) (length bs)) els) \<longrightarrow>
        classList s' x = classList s x \<and> dataset s' x = dataset s x \<and>
        listeners s' x = listeners s x \<and> childNodes (page s') x = childNodes (page s) x \<and>
        ((\<forall>e \<in> set (take (min (length els) (length bs)) els). \<not> contains (page s) x e) \<longrightarrow>
           getTextContent (page s') x = getTextContent (page s) x))"
  using assms
proof (induction U els bs origs s rule: applyLoop.induct)
  case (1 U el els b bs origs s)
  let ?new = "map Leaf (renderTranslatedBlock U (if translated b \<noteq> [] then translated b else original b))"
  let ?s1 = "translateElement U el b s"
  let ?n = "min (length els) (length bs)"
  have p1: "page ?s1 = replaceChildren el ?new (page s)"
    by (rule page_translateElement)
  have plain: "\<forall>r. Sub r \<notin> set ?new"
    by (rule plain_rendered)
  from "1.prems" have wf: "wellFormed (page s)" and nel: "el \<notin> set els" and dist: "distinct els"
    and out: "\<forall>x \<in> set els. \<not> contains (page s) x el" and eni: "earlierNotInside (page s) els"
    by simp_all
  have wf1: "wellFormed (page ?s1)"
    unfolding p1 by (rule wellFormed_replaceChildren [OF wf plain])
  have mono1: "\<And>x. descendants (page ?s1) x \<subseteq> descendants (page s) x"
    unfolding p1 by (rule descendants_replaceChildren_mono [OF plain])
  have eni1: "earlierNotInside (page ?s1) els"
    by (rule earlierNotInside_mono [OF eni mono1])
  have text1: "\<And>x. x \<noteq> el \<Longrightarrow> \<not> contains (page s) x el \<Longrightarrow>
      getTextContent (page ?s1) x = getTextContent (page s) x"
    unfolding p1 by (rule getTextContent_replaceChildren_other [OF wf])
  from "1.IH" [OF wf1 dist eni1]
  obtain s' where r: "applyLoop U els bs (origs @ [getTextContent (page s) el]) ?s1
               = ((origs @ [getTextContent (page s) el]) @ map (getTextContent (page ?s1)) (take ?n els), s')"
    and wf': "wellFormed (page s')"
    and mono': "\<forall>x. descendants (page s') x \<subseteq> descendants (page ?s1) x"
    and leaf': "\<forall>e \<in> set (take ?n els). descendants (page s') e = {}"
    and frame': "\<forall>x. x \<notin> set (take ?n els) \<longrightarrow>
        classList s' x = classList ?s1 x \<and> dataset s' x = dataset ?s1 x \<and>
        listeners s' x = listeners ?s1 x \<and> childNodes (page s') x = childNodes (page ?s1) x \<and>
        ((\<forall>e \<in> set (take ?n els). \<not> contains (page ?s1) x e) \<longrightarrow>
           getTextContent (page s') x = getTextContent (page ?s1) x)"
    by blast
  have texts: "map (getTextContent (page ?s1)) (take ?n els) = map (getTextContent (page s)) (take ?n els)"
  proof (rule map_cong [OF refl])
    fix x assume "x \<in> set (take ?n els)"
    then have x: "x \<in> set els" by (rule in_set_takeD)
    with nel out show "getTextContent (page ?s1) x = getTextContent (page s) x"
      by (intro text1) auto
  qed
  have take: "take (min (length (el # els)) (length (b # bs))) (el # els) = el # take ?n els"
    by simp
  have c1: "applyLoop U (el # els) (b # bs) origs s
      = (origs @ map (getTextContent (page s)) (el # take ?n els), s')"
    using r texts by simp
  have c3: "\<forall>x. descendants (page s') x \<subseteq> descendants (page s) x"
    using mono' mono1 by blast
  have el_leaf: "descendants (page ?s1) el = {}"
    unfolding p1 by (rule descendants_replaceChildren_same [OF plain])
  have c4: "\<forall>e \<in> set (el # take ?n els). descendants (page s') e = {}"
    using leaf' mono' el_leaf by auto
  have c5: "\<forall>x. x \<notin> set (el # take ?n els) \<longrightarrow>
        classList s' x = classList s x \<and> dataset s' x = dataset s x \<and>
        listeners s' x = listeners s x \<and> childNodes (page s') x = childNodes (page s) x \<and>
        ((\<forall>e \<in> set (el # take ?n els). \<not> contains (page s) x e) \<longrightarrow>
           getTextContent (page s') x = getTextContent (page s) x)"
  proof (intro allI impI)
    fix x assume x: "x \<notin> set (el # take ?n els)"
    then have xel: "x \<noteq> el" and xn: "x \<notin> set (take ?n els)" by simp_all
    from frame' xn have f: "classList s' x = classList ?s1 x" "dataset s' x = dataset ?s1 x"
      "listeners s' x = listeners ?s1 x" "childNodes (page s') x = childNodes (page ?s1) x"
      "(\<forall>e \<in> set (take ?n els). \<not> contains (page ?s1) x e) \<longrightarrow>
           getTextContent (page s') x = getTextContent (page ?s1) x"
      by simp_all
    have cn: "childNodes (page ?s1) x = childNodes (page s) x"
      unfolding p1 by (rule childNodes_replaceChildren_other [OF xel])
    have tx: "(\<forall>e \<in> set (el # take ?n els). \<not> contains (page s) x e) \<longrightarrow>
           getTextContent (page s') x = getTextContent (page s) x"
    proof
      assume a: "\<forall>e \<in> set (el # take ?n els). \<not> contains (page s) x e"
      then have "\<forall>e \<in> set (take ?n els). \<not> contains (page ?s1) x e"
        using mono1 by (auto simp: contains_def)
      with f(5) have "getTextContent (page s') x = getTextContent (page ?s1) x" by simp
      also from a xel have "\<dots> = getTextContent (page s) x"
        by (intro text1) simp_all
      finally show "getTextContent (page s') x = getTextContent (page s) x" .
    qed
    from f cn tx attrs_translateElement [OF xel, of U b s]
    show "classList s' x = classList s x \<and> dataset s' x = dataset s x \<and>
        listeners s' x = listeners s x \<and> childNodes (page s') x = childNodes (page s) x \<and>
        ((\<forall>e \<in> set (el # take ?n els). \<not> contains (page s) x e) \<longrightarrow>
           getTextContent (page s') x = getTextContent (page s) x)"
      by simp
  qed
  from c1 wf' c3 c4 c5 show ?case
    unfolding take by blast
qed simp_all

lemma page_restoreElement:
  "page (restoreElement el t s)
     = replaceChildren el (if t = [] then [] else [Leaf (TextNode t)]) (page s)"
  by (simp add: restoreElement_def setTextContent_def Let_def)

lemma attrs_restoreElement:
  "x \<noteq> el \<Longrightarrow> classList (restoreElement el t s) x = classList s x \<and>
     dataset (restoreElement el t s) x = dataset s x \<and>
     listeners (restoreElement el t s) x = listeners s x"
  by (simp add: restoreElement_def setTextContent_def Let_def)

lemma cleaned_restoreElement:
  "''vakya-translated'' \<notin> classList (restoreElement el t s) el \<and>
   dataset (restoreElement el t s) el ''vakyaOriginal'' = None \<and>
   dataset (restoreElement el t s) el ''vakyaContext'' = None \<and>
   (''click'', ''handleSentenceClick'') \<notin> listeners (restoreElement el t s) el"
  by (simp add: restoreElement_def setTextContent_def Let_def)

lemma plain_text: "\<forall>r. Sub r \<notin> set (if t = [] then [] else [Leaf (TextNode t)])"
  by simp

lemma text_restoreElement: "getTextContent (page (restoreElement el t s)) el = t"
  unfolding page_restoreElement
  by (simp add: getTextContent_replaceChildren_same [OF plain_text])

lemma restoreLoop_props:
  assumes "wellFormed (page s)" "distinct els" "\<forall>e \<in> set els. descendants (page s) e = {}"
    "i + length els \<le> length origs"
  shows "wellFormed (page (restoreLoop els i origs s)) \<and>
     (\<forall>x. descendants (page (restoreLoop els i origs s)) x \<subseteq> descendants (page s) x) \<and>
     (\<forall>k < length els. getTextContent (page (restoreLoop els i origs s)) (els ! k) = origs ! (i + k)) \<and>
     (\<forall>e \<in> set els.
        ''vakya-translated'' \<notin> classList (restoreLoop els i origs s) e \<and>
        dataset (restoreLoop els i origs s) e ''vakyaOriginal'' = None \<and>
        dataset (restoreLoop els i origs s) e ''vakyaContext'' = None \<and>
        (''click'', ''handleSentenceClick'') \<notin> listeners (restoreLoop els i origs s) e) \<and>
     (\<forall>x. x \<notin> set els \<longrightarrow>
        classList (restoreLoop els i origs s) x = classList s x \<and>
        dataset (restoreLoop els i origs s) x = dataset s x \<and>
        listeners (restoreLoop els i origs s) x = listeners s x \<and>
        childNodes (page (restoreLoop els i origs s)) x = childNodes (page s) x \<and>
        ((\<forall>e \<in> set els. \<not> contains (page s) x e) \<longrightarrow>
           getTextContent (page (restoreLoop els i origs s)) x = getTextContent (page s) x))"
  using assms
proof (induction els arbitrary: i s)
  case Nil
  then show ?case by simp
next
  case (Cons el els)
  define t where "t = (if i < length origs then origs ! i else [])"
  define new where "new = (if t = [] then [] else [Leaf (TextNode t)])"
  let ?s1 = "restoreElement el t s"
  let ?s' = "restoreLoop els (Suc i) origs ?s1"
  have step: "restoreLoop (el # els) i origs s = ?s'"
    by (simp add: t_def)
  from Cons.prems have wf: "wellFormed (page s)" and nel: "el \<notin> set els" and dist: "distinct els"
    and leaves: "\<forall>e \<in> set els. descendants (page s) e = {}"
    and el_leaf0: "descendants (page s) el = {}"
    and len: "Suc i + length els \<le> length origs" and i: "i < length origs"
    by simp_all
  have p1: "page ?s1 = replaceChildren el new (page s)"
    unfolding new_def by (rule page_restoreElement)
  have plain: "\<forall>r. Sub r \<notin> set new"
    unfolding new_def by (rule plain_text)
  have wf1: "wellFormed (page ?s1)"
    unfolding p1 by (rule wellFormed_replaceChildren [OF wf plain])
  have mono1: "\<And>x. descendants (page ?s1) x \<subseteq> descendants (page s) x"
    unfolding p1 by (rule descendants_replaceChildren_mono [OF plain])
  from leaves mono1 have leaves1: "\<forall>e \<in> set els. descendants (page ?s1) e = {}"
    by blast
  from el_leaf0 mono1 have el_leaf1: "descendants (page ?s1) el = {}"
    by blast
  have text1: "\<And>x. x \<noteq> el \<Longrightarrow> \<not> contains (page s) x el \<Longrightarrow>
      getTextContent (page ?s1) x = getTextContent (page s) x"
    unfolding p1 by (rule getTextContent_replaceChildren_other [OF wf])
  note ih = Cons.IH [OF wf1 dist leaves1 len]
  from ih have wf': "wellFormed (page ?s')"
    and mono': "\<forall>x. descendants (page ?s') x \<subseteq> descendants (page ?s1) x"
    and texts': "\<forall>k < length els. getTextContent (page ?s') (els ! k) = origs ! (Suc i + k)"
    and clean': "\<forall>e \<in> set els.
        ''vakya-translated'' \<notin> classList ?s' e \<and>
        dataset ?s' e ''vakyaOriginal'' = None \<and>
        dataset ?s' e ''vakyaContext'' = None \<and>
        (''click'', ''handleSentenceClick'') \<notin> listeners ?s' e"
    and frame': "\<forall>x. x \<notin> set els \<longrightarrow>
        classList ?s' x = classList ?s1 x \<and> dataset ?s' x = dataset ?s1 x \<and>
        listeners ?s' x = listeners ?s1 x \<and> childNodes (page ?s') x = childNodes (page ?s1) x \<and>
        ((\<forall>e \<in> set els. \<not> contains (page ?s1) x e) \<longrightarrow>
           getTextContent (page ?s') x = getTextContent (page ?s1) x)"
    by blast+
  have c2: "\<forall>x. descendants (page ?s') x \<subseteq> descendants (page s) x"
    using mono' mono1 by blast
  from frame' nel have fel: "classList ?s' el = classList ?s1 el" "dataset ?s' el = dataset ?s1 el"
      "listeners ?s' el = listeners ?s1 el"
      "(\<forall>e \<in> set els. \<not> contains (page ?s1) el e) \<longrightarrow>
           getTextContent (page ?s') el = getTextContent (page ?s1) el"
    by simp_all
  from el_leaf1 have "\<forall>e \<in> set els. \<not> contains (page ?s1) el e"
    by (simp add: contains_def)
  with fel(4) have "getTextContent (page ?s') el = getTextContent (page ?s1) el"
    by simp
  with i have tel: "getTextContent (page ?s') el = origs ! i"
    by (simp add: text_restoreElement t_def)
  have c3: "\<forall>k < length (el # els). getTextContent (page ?s') ((el # els) ! k) = origs ! (i + k)"
  proof (intro allI impI)
    fix k assume k: "k < length (el # els)"
    show "getTextContent (page ?s') ((el # els) ! k) = origs ! (i + k)"
    proof (cases k)
      case 0
      with tel show ?thesis by simp
    next
      case (Suc k')
      with k texts' show ?thesis by simp
    qed
  qed
  have c4: "\<forall>e \<in> set (el # els).
        ''vakya-translated'' \<notin> classList ?s' e \<and>
        dataset ?s' e ''vakyaOriginal'' = None \<and>
        dataset ?s' e ''vakyaContext'' = None \<and>
        (''click'', ''handleSentenceClick'') \<notin> listeners ?s' e"
    using clean' fel(1-3) cleaned_restoreElement [of el t s] by auto
  have c5: "\<forall>x. x \<notin> set (el # els) \<longrightarrow>
        classList ?s' x = classList s x \<and> dataset ?s' x = dataset s x \<and>
        listeners ?s' x = listeners s x \<and> childNodes (page ?s') x = childNodes (page s) x \<and>
        ((\<forall>e \<in> set (el # els). \<not> contains (page s) x e) \<longrightarrow>
           getTextContent (page ?s') x = getTextContent (page s) x)"
  proof (intro allI impI)
    fix x assume x: "x \<notin> set (el # els)"
    then have xel: "x \<noteq> el" and xn: "x \<notin> set els" by simp_all
    from frame' xn have f: "classList ?s' x = classList ?s1 x" "dataset ?s' x = dataset ?s1 x"
      "listeners ?s' x = listeners ?s1 x" "childNodes (page ?s') x = childNodes (page ?s1) x"
      "(\<forall>e \<in> set els. \<not> contains (page ?s1) x e) \<longrightarrow>
           getTextContent (page ?s') x = getTextContent (page ?s1) x"
      by simp_all
    have cn: "childNodes (page ?s1) x = childNodes (page s) x"
      unfolding p1 by (rule childNodes_replaceChildren_other [OF xel])
    have tx: "(\<forall>e \<in> set (el # els). \<not> contains (page s) x e) \<longrightarrow>
           getTextContent (page ?s') x = getTextContent (page s) x"
    proof
      assume a: "\<forall>e \<in> set (el # els). \<not> contains (page s) x e"
      then have "\<forall>e \<in> set els. \<not> contains (page ?s1) x e"
        using mono1 by (auto simp: contains_def)
      with f(5) have "getTextContent (page ?s') x = getTextContent (page ?s1) x" by simp
      also from a xel have "\<dots> = getTextContent (page s) x"
        by (intro text1) simp_all
      finally show "getTextContent (page ?s') x = getTextContent (page s) x" .
    qed
    from f cn tx attrs_restoreElement [OF xel, of t s]
    show "classList ?s' x = classList s x \<and> dataset ?s' x = dataset s x \<and>
        listeners ?s' x = listeners s x \<and> childNodes (page ?s') x = childNodes (page s) x \<and>
        ((\<forall>e \<in> set (el # els). \<not> contains (page s) x e) \<longrightarrow>
           getTextContent (page ?s') x = getTextContent (page s) x)"
      by simp
  qed
  from wf' c2 c3 c4 c5 show ?case
    unfolding step by blast
qed

lemma restoreOriginal_dom:
  assumes "translationState s = Some ts"
  shows "page (restoreOriginal s) = page (restoreLoop (elements ts) 0 (originals ts) s) \<and>
     classList (restoreOriginal s) = classList (restoreLoop (elements ts) 0 (originals ts) s) \<and>
     dataset (restoreOriginal s) = dataset (restoreLoop (elements ts) 0 (originals ts) s) \<and>
     listeners (restoreOriginal s) = listeners (restoreLoop (elements ts) 0 (originals ts) s) \<and>
     translationState (restoreOriginal s) = None"
  using assms
  by (simp add: restoreOriginal_def showFloatingBar_def hideFloatingBar_def hideTooltip_def Let_def)

lemma applyTranslations_eq:
  "applyLoop U els bs [] s = (origs, s') \<Longrightarrow>
     applyTranslations U els bs s
       = s'\<lparr>translationState :=
              Some \<lparr>elements = take (min (length els) (length bs)) els, originals = origs\<rparr>\<rparr>"
  by (simp add: applyTranslations_def Let_def)

lemma restoreLoop_hover:
  "hoveredSentence (restoreLoop els i origs s) = hoveredSentence s \<and>
   (''vakya-sentence-hover'' \<in> classList (restoreLoop els i origs s) el
      \<longleftrightarrow> ''vakya-sentence-hover'' \<in> classList s el)"
  by (induction els arbitrary: i s)
     (auto simp: restoreElement_def setTextContent_def Let_def)

lemma restoreOriginal_hover:
  "hoveredSentence (restoreOriginal s) = hoveredSentence s \<and>
   (''vakya-sentence-hover'' \<in> classList (restoreOriginal s) el
      \<longleftrightarrow> ''vakya-sentence-hover'' \<in> classList s el)"
proof (cases "translationState s")
  case None
  then show ?thesis by (simp add: restoreOriginal_def)
next
  case (Some ts)
  with restoreLoop_hover [of "elements ts" 0 "originals ts" s el] show ?thesis
    by (simp add: restoreOriginal_def showFloatingBar_def hideFloatingBar_def hideTooltip_def Let_def)
qed

subsection \<open>The example session, evaluated\<close>

lemma example_rendered:
  "renderTranslatedBlock asciiOnly (js ''The world'')
     = [WordSpan (js ''The'') (js ''The''), TextNode (js '' ''), WordSpan (js ''world'') (js ''world'')]"
  "renderTranslatedBlock asciiOnly (js ''world'') = [WordSpan (js ''world'') (js ''world'')]"
  by (simp_all add: renderTranslatedBlock_def split_ws.simps js_def isSpace_def hasLetter_def
        pL_def keyChar_def pPd_def pM_def isHigh_def isLow_def)

lemma example_session:
  "applyTranslations asciiOnly [2, 1] exampleBlocks (initialState examplePage)
     = (initialState examplePage)
        \<lparr>page := [(1, map Leaf (renderTranslatedBlock asciiOnly (js ''world''))),
                  (2, map Leaf (renderTranslatedBlock asciiOnly (js ''The world''))),
                  (3, [Leaf (TextNode (js ''Ende''))])],
         classList := (\<lambda>el. {})(2 := {''vakya-translated''}, 1 := {''vakya-translated''}),
         dataset := (\<lambda>el. Map.empty)
            (2 := [''vakyaOriginal'' \<mapsto> js ''Welt'', ''vakyaContext'' \<mapsto> js ''Die Welt''],
             1 := [''vakyaOriginal'' \<mapsto> js ''Die The world'', ''vakyaContext'' \<mapsto> js ''Welt'']),
         listeners := (\<lambda>el. {})(2 := {(''click'', ''handleSentenceClick'')},
                               1 := {(''click'', ''handleSentenceClick'')}),
         translationState := Some \<lparr>elements = [2, 1], originals = [js ''Welt'', js ''Die The world'']\<rparr>\<rparr>"
  by (simp add: applyTranslations_def translateElement_def renderInto_def initialState_def
        replaceChildren_def examplePage_def exampleBlocks_def Let_def js_eq_iff example_rendered)
     (simp add: js_def)

lemma examplePage_wellFormed: "wellFormed examplePage"
  by (simp add: examplePage_def)

lemma examplePage_descendants:
  "descendants examplePage 2 = {}" "descendants examplePage 3 = {}"
  by (simp_all add: examplePage_def)

section \<open>Claims about the rewrite and the restore\<close>

text \<open>
  C2, as stated, fails for some element lists. When a span (element 2) is translated
  before the paragraph that contains it (element 1), the original captured for the
  paragraph already holds the translated text of the span, and restore writes that text
  back: the paragraph ends with \<open>"Die The world"\<close> instead of \<open>"Die Welt"\<close>. When an
  element occurs twice in the list, the second capture is the translation of the first
  block, and restore leaves that translation in the element.
\<close>

theorem restore_after_apply_counterexample:
  "getTextContent (page (restoreOriginal
      (applyTranslations asciiOnly [2, 1] exampleBlocks (initialState examplePage)))) 1
     \<noteq> getTextContent (page (initialState examplePage)) 1 \<and>
   getTextContent (page (restoreOriginal
      (applyTranslations asciiOnly [3, 3] exampleBlocks (initialState examplePage)))) 3
     \<noteq> getTextContent (page (initialState examplePage)) 3"
proof -
  have before: "getTextContent (page (initialState examplePage)) 1 = js ''Die Welt''"
    "getTextContent (page (initialState examplePage)) 3 = js ''Ende''"
    by (simp_all add: initialState_def examplePage_def js_def)
  have after1: "getTextContent (page (restoreOriginal
      (applyTranslations asciiOnly [2, 1] exampleBlocks (initialState examplePage)))) 1
     = js ''Die The world''"
    unfolding example_session
    by (simp add: restoreOriginal_def restoreElement_def setTextContent_def replaceChildren_def
          showFloatingBar_def hideFloatingBar_def hideTooltip_def initialState_def Let_def js_eq_iff)
  have after3: "getTextContent (page (restoreOriginal
      (applyTranslations asciiOnly [3, 3] exampleBlocks (initialState examplePage)))) 3
     = js ''The world''"
    apply (simp add: applyTranslations_def translateElement_def renderInto_def initialState_def
        replaceChildren_def examplePage_def exampleBlocks_def Let_def js_eq_iff example_rendered)
    apply (simp add: restoreOriginal_def restoreElement_def setTextContent_def replaceChildren_def
          showFloatingBar_def hideFloatingBar_def hideTooltip_def Let_def js_eq_iff)
    apply (simp add: js_def)
    done
  show ?thesis
    unfolding before after1 after3 by (simp add: js_eq_iff)
qed

text \<open>
  C2, amended. On a well-formed page, for a list of pairwise distinct elements in which
  no element contains one that comes earlier (what the matcher returns), and for any
  list of translated blocks: after \<open>applyTranslations\<close> and \<open>restoreOriginal\<close> every
  element of the list has the text content it had before; the elements that were
  paired with a block have no \<open>vakya-translated\<close> class, no stored original or
  context and no sentence click listener; the elements beyond the shorter length have
  their child nodes, classes, dataset and listeners untouched; no session remains.
\<close>

theorem restore_after_apply:
  assumes wf: "wellFormed (page s)" and dist: "distinct els"
    and order: "\<forall>i j. i < j \<and> j < length els \<longrightarrow> \<not> contains (page s) (els ! j) (els ! i)"
  shows "(\<forall>e \<in> set els.
       getTextContent (page (restoreOriginal (applyTranslations U els bs s))) e
         = getTextContent (page s) e) \<and>
   (\<forall>e \<in> set (take (min (length els) (length bs)) els).
       ''vakya-translated'' \<notin> classList (restoreOriginal (applyTranslations U els bs s)) e \<and>
       dataset (restoreOriginal (applyTranslations U els bs s)) e ''vakyaOriginal'' = None \<and>
       dataset (restoreOriginal (applyTranslations U els bs s)) e ''vakyaContext'' = None \<and>
       (''click'', ''handleSentenceClick'')
          \<notin> listeners (restoreOriginal (applyTranslations U els bs s)) e) \<and>
   (\<forall>e \<in> set (drop (min (length els) (length bs)) els).
       childNodes (page (restoreOriginal (applyTranslations U els bs s))) e = childNodes (page s) e \<and>
       classList (restoreOriginal (applyTranslations U els bs s)) e = classList s e \<and>
       dataset (restoreOriginal (applyTranslations U els bs s)) e = dataset s e \<and>
       listeners (restoreOriginal (applyTranslations U els bs s)) e = listeners s e) \<and>
   translationState (restoreOriginal (applyTranslations U els bs s)) = None"
proof -
  define n where "n = min (length els) (length bs)"
  define handled where "handled = take n els"
  define origs where "origs = map (getTextContent (page s)) handled"
  have eni: "earlierNotInside (page s) els"
    by (rule earlierNotInside_index [OF order])
  from applyLoop_props [OF wf dist eni, of U bs "[]"]
  obtain s1 where loop: "applyLoop U els bs [] s = (origs, s1)"
    and wf1: "wellFormed (page s1)"
    and mono1: "\<forall>x. descendants (page s1) x \<subseteq> descendants (page s) x"
    and leaves1: "\<forall>e \<in> set handled. descendants (page s1) e = {}"
    and frame1: "\<forall>x. x \<notin> set handled \<longrightarrow>
        classList s1 x = classList s x \<and> dataset s1 x = dataset s x \<and>
        listeners s1 x = listeners s x \<and> childNodes (page s1) x = childNodes (page s) x \<and>
        ((\<forall>e \<in> set handled. \<not> contains (page s) x e) \<longrightarrow>
           getTextContent (page s1) x = getTextContent (page s) x)"
    unfolding origs_def handled_def n_def by auto
  define sa where "sa = applyTranslations U els bs s"
  have sa: "sa = s1\<lparr>translationState := Some \<lparr>elements = handled, originals = origs\<rparr>\<rparr>"
    unfolding sa_def handled_def n_def by (rule applyTranslations_eq [OF loop])
  define sl where "sl = restoreLoop handled 0 origs sa"
  have ts: "translationState sa = Some \<lparr>elements = handled, originals = origs\<rparr>"
    by (simp add: sa)
  from restoreOriginal_dom [OF ts]
  have fin: "page (restoreOriginal sa) = page sl" "classList (restoreOriginal sa) = classList sl"
    "dataset (restoreOriginal sa) = dataset sl" "listeners (restoreOriginal sa) = listeners sl"
    "translationState (restoreOriginal sa) = None"
    by (simp_all add: sl_def)
  have pa: "page sa = page s1" "classList sa = classList s1" "dataset sa = dataset s1"
    "listeners sa = listeners s1"
    by (simp_all add: sa)
  have ddone: "distinct handled"
    unfolding handled_def using dist by simp
  have len: "0 + length handled \<le> length origs"
    by (simp add: origs_def)
  from restoreLoop_props [of sa handled 0 origs] wf1 ddone leaves1 len
  have texts2: "\<forall>k < length handled. getTextContent (page sl) (handled ! k) = origs ! (0 + k)"
    and clean2: "\<forall>e \<in> set handled.
        ''vakya-translated'' \<notin> classList sl e \<and> dataset sl e ''vakyaOriginal'' = None \<and>
        dataset sl e ''vakyaContext'' = None \<and>
        (''click'', ''handleSentenceClick'') \<notin> listeners sl e"
    and frame2: "\<forall>x. x \<notin> set handled \<longrightarrow>
        classList sl x = classList sa x \<and> dataset sl x = dataset sa x \<and>
        listeners sl x = listeners sa x \<and> childNodes (page sl) x = childNodes (page sa) x \<and>
        ((\<forall>e \<in> set handled. \<not> contains (page sa) x e) \<longrightarrow>
           getTextContent (page sl) x = getTextContent (page sa) x)"
    unfolding sl_def pa by blast+
  have later1: "\<And>x. x \<in> set (drop n els) \<Longrightarrow> x \<notin> set handled"
  proof -
    fix x assume x: "x \<in> set (drop n els)"
    from dist have "set (take n els) \<inter> set (drop n els) = {}"
      by (simp add: set_take_disj_set_drop_if_distinct)
    with x show "x \<notin> set handled" by (auto simp: handled_def)
  qed
  have later2: "\<And>x e. x \<in> set (drop n els) \<Longrightarrow> e \<in> set handled \<Longrightarrow>
      \<not> contains (page s) x e"
  proof -
    fix x e assume x: "x \<in> set (drop n els)" and e: "e \<in> set handled"
    from x obtain k where "k < length els - n" "els ! (n + k) = x"
      by (auto simp: in_set_conv_nth)
    then have k: "n + k < length els" "els ! (n + k) = x"
      by simp_all
    from e obtain i where i: "i < n" "i < length els" "els ! i = e"
      by (auto simp: handled_def in_set_conv_nth)
    from order [rule_format, of i "n + k"] k i show "\<not> contains (page s) x e"
      by simp
  qed
  have untouched: "\<And>x. x \<in> set (drop n els) \<Longrightarrow>
      getTextContent (page sl) x = getTextContent (page s) x \<and>
      childNodes (page sl) x = childNodes (page s) x \<and> classList sl x = classList s x \<and>
      dataset sl x = dataset s x \<and> listeners sl x = listeners s x"
  proof -
    fix x assume x: "x \<in> set (drop n els)"
    from later1 [OF x] later2 [OF x]
    have xn: "x \<notin> set handled" and out: "\<forall>e \<in> set handled. \<not> contains (page s) x e"
      by blast+
    from out mono1 have out1: "\<forall>e \<in> set handled. \<not> contains (page sa) x e"
      by (auto simp: contains_def pa)
    from frame2 xn out1 have "classList sl x = classList s1 x" "dataset sl x = dataset s1 x"
      "listeners sl x = listeners s1 x" "childNodes (page sl) x = childNodes (page s1) x"
      "getTextContent (page sl) x = getTextContent (page s1) x"
      by (simp_all add: pa)
    with frame1 xn out show "getTextContent (page sl) x = getTextContent (page s) x \<and>
      childNodes (page sl) x = childNodes (page s) x \<and> classList sl x = classList s x \<and>
      dataset sl x = dataset s x \<and> listeners sl x = listeners s x"
      by simp
  qed
  have restored: "\<And>e. e \<in> set handled \<Longrightarrow> getTextContent (page sl) e = getTextContent (page s) e"
  proof -
    fix e assume "e \<in> set handled"
    then obtain k where k: "k < length handled" "handled ! k = e"
      by (auto simp: in_set_conv_nth)
    with texts2 have "getTextContent (page sl) e = origs ! k" by auto
    with k show "getTextContent (page sl) e = getTextContent (page s) e"
      by (simp add: origs_def)
  qed
  have c1: "\<forall>e \<in> set els. getTextContent (page (restoreOriginal sa)) e = getTextContent (page s) e"
  proof
    fix e assume "e \<in> set els"
    then have "e \<in> set (take n els) \<or> e \<in> set (drop n els)"
      by (metis Un_iff append_take_drop_id set_append)
    with restored untouched show "getTextContent (page (restoreOriginal sa)) e = getTextContent (page s) e"
      by (auto simp: fin handled_def)
  qed
  have c2: "\<forall>e \<in> set (take n els).
       ''vakya-translated'' \<notin> classList (restoreOriginal sa) e \<and>
       dataset (restoreOriginal sa) e ''vakyaOriginal'' = None \<and>
       dataset (restoreOriginal sa) e ''vakyaContext'' = None \<and>
       (''click'', ''handleSentenceClick'') \<notin> listeners (restoreOriginal sa) e"
    using clean2 by (simp add: fin handled_def)
  have c3: "\<forall>e \<in> set (drop n els).
       childNodes (page (restoreOriginal sa)) e = childNodes (page s) e \<and>
       classList (restoreOriginal sa) e = classList s e \<and>
       dataset (restoreOriginal sa) e = dataset s e \<and>
       listeners (restoreOriginal sa) e = listeners s e"
    using untouched by (simp add: fin)
  from c1 c2 c3 fin(5) show ?thesis
    unfolding sa_def n_def by (intro conjI)
qed

theorem restore_after_apply_witness:
  "wellFormed (page (initialState examplePage)) \<and> distinct [1, 2, 3 :: nat] \<and>
   \<not> contains (page (initialState examplePage)) 2 1 \<and>
   \<not> contains (page (initialState examplePage)) 3 1 \<and>
   \<not> contains (page (initialState examplePage)) 3 2 \<and>
   contains (page (initialState examplePage)) 1 2 \<and>
   getTextContent (page (restoreOriginal
      (applyTranslations asciiOnly [1, 2, 3] exampleBlocks (initialState examplePage)))) 1
     = js ''Die Welt'' \<and>
   getTextContent (page (restoreOriginal
      (applyTranslations asciiOnly [1, 2, 3] exampleBlocks (initialState examplePage)))) 2
     = js ''Welt'' \<and>
   childNodes (page (restoreOriginal
      (applyTranslations asciiOnly [1, 2, 3] exampleBlocks (initialState examplePage)))) 3
     = [Leaf (TextNode (js ''Ende''))]"
proof -
  let ?s = "initialState examplePage"
  have pg: "page ?s = examplePage"
    by (simp add: initialState_def)
  have wf: "wellFormed (page ?s)"
    by (simp add: pg examplePage_wellFormed)
  have d: "distinct [1, 2, 3 :: nat]"
    by simp
  have order: "\<forall>i j. i < j \<and> j < length [1, 2, 3 :: nat] \<longrightarrow>
      \<not> contains (page ?s) ([1, 2, 3] ! j) ([1, 2, 3] ! i)"
  proof (intro allI impI)
    fix i j :: nat
    assume "i < j \<and> j < length [1, 2, 3 :: nat]"
    then have "j = 1 \<or> j = 2" by auto
    then have "[1, 2, 3 :: nat] ! j = 2 \<or> [1, 2, 3 :: nat] ! j = 3" by auto
    then show "\<not> contains (page ?s) ([1, 2, 3] ! j) ([1, 2, 3] ! i)"
      by (auto simp: contains_def pg examplePage_descendants)
  qed
  have inside: "contains (page ?s) 1 2"
    unfolding pg by (simp add: contains_def examplePage_def)
  have t: "getTextContent (page ?s) 1 = js ''Die Welt''" "getTextContent (page ?s) 2 = js ''Welt''"
    unfolding pg by (simp_all add: examplePage_def js_def)
  have c: "childNodes (page ?s) 3 = [Leaf (TextNode (js ''Ende''))]"
    unfolding pg by (simp add: examplePage_def childNodes_def)
  have n: "min (length [1, 2, 3 :: nat]) (length exampleBlocks) = 2"
    by (simp add: exampleBlocks_def)
  note main = restore_after_apply [OF wf d order, of asciiOnly exampleBlocks]
  from main [THEN conjunct1] t
  have r12: "getTextContent (page (restoreOriginal
      (applyTranslations asciiOnly [1, 2, 3] exampleBlocks ?s))) 1 = js ''Die Welt''"
    "getTextContent (page (restoreOriginal
      (applyTranslations asciiOnly [1, 2, 3] exampleBlocks ?s))) 2 = js ''Welt''"
    by simp_all
  from main [THEN conjunct2, THEN conjunct2, THEN conjunct1] c
  have r3: "childNodes (page (restoreOriginal
      (applyTranslations asciiOnly [1, 2, 3] exampleBlocks ?s))) 3 = [Leaf (TextNode (js ''Ende''))]"
    unfolding n by simp
  have outside: "\<not> contains (page ?s) 2 1" "\<not> contains (page ?s) 3 1"
    "\<not> contains (page ?s) 3 2"
    unfolding pg by (simp_all add: contains_def examplePage_descendants)
  from wf d outside inside r12 r3 show ?thesis
    by (intro conjI)
qed

text \<open>
  C8. While a session is active, \<open>translatePage\<close> only replaces the floating bar by
  the notice that the page is already translated (with the restore button): the page,
  the classes, datasets and listeners of its elements, the session, the translator
  state, the tooltip, the overlay and the timers are as before. The session is one
  optional value, so there is never more than one.
\<close>

theorem translatePage_rejected_while_active:
  "translationState s \<noteq> None \<Longrightarrow>
     translatePage U env s
       = s\<lparr>activeFloatingBar :=
              Some \<lparr>message = PageAlreadyTranslated, bar_type = ''info'', restoreButton = True\<rparr>\<rparr> \<and>
     page (translatePage U env s) = page s \<and>
     classList (translatePage U env s) = classList s \<and>
     dataset (translatePage U env s) = dataset s \<and>
     listeners (translatePage U env s) = listeners s \<and>
     translationState (translatePage U env s) = translationState s \<and>
     browserTranslator (translatePage U env s) = browserTranslator s \<and>
     browserTranslatorInitialized (translatePage U env s) = browserTranslatorInitialized s \<and>
     translatorLanguages (translatePage U env s) = translatorLanguages s \<and>
     activeTooltip (translatePage U env s) = activeTooltip s \<and>
     activeOverlay (translatePage U env s) = activeOverlay s \<and>
     timers (translatePage U env s) = timers s"
  by (simp add: translatePage_def showFloatingBar_def hideFloatingBar_def Let_def)

theorem translatePage_rejected_while_active_witness:
  "translationState (applyTranslations asciiOnly [2, 1] exampleBlocks (initialState examplePage)) \<noteq> None \<and>
   page (translatePage asciiOnly exampleEnvironment
          (applyTranslations asciiOnly [2, 1] exampleBlocks (initialState examplePage)))
     = page (applyTranslations asciiOnly [2, 1] exampleBlocks (initialState examplePage)) \<and>
   activeFloatingBar (translatePage asciiOnly exampleEnvironment
          (applyTranslations asciiOnly [2, 1] exampleBlocks (initialState examplePage)))
     = Some \<lparr>message = PageAlreadyTranslated, bar_type = ''info'', restoreButton = True\<rparr>"
proof -
  let ?s = "applyTranslations asciiOnly [2, 1] exampleBlocks (initialState examplePage)"
  have a: "translationState ?s \<noteq> None"
    unfolding example_session by simp
  from translatePage_rejected_while_active [OF a, of asciiOnly exampleEnvironment]
  have "translatePage asciiOnly exampleEnvironment ?s
       = ?s\<lparr>activeFloatingBar :=
              Some \<lparr>message = PageAlreadyTranslated, bar_type = ''info'', restoreButton = True\<rparr>\<rparr>"
    and "page (translatePage asciiOnly exampleEnvironment ?s) = page ?s"
    by blast+
  with a show ?thesis
    by simp
qed

text \<open>
  C9, as stated, fails: \<open>restoreOriginal\<close> never calls \<open>clearSentenceHover\<close>. After a
  translation, a press of Control with the pointer over the translated element 1 marks
  it as hovered; a restore in that state leaves \<open>hoveredSentence\<close> set and the class
  \<open>vakya-sentence-hover\<close> on the element.
\<close>

theorem restore_clears_hover_counterexample:
  "translationState (keydownListener ''Control'' (Some 1)
      (applyTranslations asciiOnly [2, 1] exampleBlocks (initialState examplePage))) \<noteq> None \<and>
   hoveredSentence (restoreOriginal (keydownListener ''Control'' (Some 1)
      (applyTranslations asciiOnly [2, 1] exampleBlocks (initialState examplePage)))) = Some 1 \<and>
   ''vakya-sentence-hover'' \<in> classList (restoreOriginal (keydownListener ''Control'' (Some 1)
      (applyTranslations asciiOnly [2, 1] exampleBlocks (initialState examplePage)))) 1"
proof -
  let ?s0 = "keydownListener ''Control'' (Some 1)
      (applyTranslations asciiOnly [2, 1] exampleBlocks (initialState examplePage))"
  have "translationState ?s0 \<noteq> None" "hoveredSentence ?s0 = Some 1"
    "''vakya-sentence-hover'' \<in> classList ?s0 1"
    unfolding example_session
    by (simp_all add: keydownListener_def updateSentenceHoverAtPoint_def clearSentenceHover_def
          initialState_def Let_def)
  with restoreOriginal_hover [of ?s0 1] show ?thesis
    by simp
qed

text \<open>
  C9, amended. After \<open>restoreOriginal\<close> on an active session no tooltip is open and no
  word is marked as clicked, whatever the interaction state was. The sentence hover is
  cleared by the next release of the modifier key or the next window blur: after
  either, no element is hovered and the element that was hovered has lost the class
  \<open>vakya-sentence-hover\<close>.
\<close>

theorem restore_closes_popup:
  "translationState s \<noteq> None \<Longrightarrow>
     activeTooltip (restoreOriginal s) = None \<and>
     currentClickedWord (restoreOriginal s) = None \<and>
     hoveredSentence (blurListener (restoreOriginal s)) = None \<and>
     hoveredSentence (keyupListener ''Control'' (restoreOriginal s)) = None \<and>
     hoveredSentence (keyupListener ''Meta'' (restoreOriginal s)) = None \<and>
     (\<forall>el. hoveredSentence (restoreOriginal s) = Some el \<longrightarrow>
        ''vakya-sentence-hover'' \<notin> classList (blurListener (restoreOriginal s)) el \<and>
        ''vakya-sentence-hover'' \<notin> classList (keyupListener ''Control'' (restoreOriginal s)) el \<and>
        ''vakya-sentence-hover'' \<notin> classList (keyupListener ''Meta'' (restoreOriginal s)) el)"
proof -
  assume a: "translationState s \<noteq> None"
  then obtain ts where ts: "translationState s = Some ts" by auto
  have popup: "activeTooltip (restoreOriginal s) = None \<and> currentClickedWord (restoreOriginal s) = None"
    using ts
    by (simp add: restoreOriginal_def showFloatingBar_def hideFloatingBar_def hideTooltip_def Let_def)
  have clear: "\<And>r. hoveredSentence (clearSentenceHover r) = None \<and>
      (\<forall>el. hoveredSentence r = Some el \<longrightarrow>
         ''vakya-sentence-hover'' \<notin> classList (clearSentenceHover r) el)"
    by (simp add: clearSentenceHover_def split: option.splits)
  have blur: "hoveredSentence (blurListener (restoreOriginal s)) = None \<and>
      (\<forall>el. hoveredSentence (restoreOriginal s) = Some el \<longrightarrow>
         ''vakya-sentence-hover'' \<notin> classList (blurListener (restoreOriginal s)) el)"
    using clear [of "(restoreOriginal s)\<lparr>isModifierHeld := False,
        bodyClassList := bodyClassList (restoreOriginal s) - {''vakya-sentence-mode''}\<rparr>"]
    by (simp add: blurListener_def)
  have keyup: "\<And>key. key = ''Control'' \<or> key = ''Meta'' \<Longrightarrow>
      hoveredSentence (keyupListener key (restoreOriginal s)) = None \<and>
      (\<forall>el. hoveredSentence (restoreOriginal s) = Some el \<longrightarrow>
         ''vakya-sentence-hover'' \<notin> classList (keyupListener key (restoreOriginal s)) el)"
    using clear [of "(restoreOriginal s)\<lparr>isModifierHeld := False,
        bodyClassList := bodyClassList (restoreOriginal s) - {''vakya-sentence-mode''}\<rparr>"]
    by (auto simp: keyupListener_def)
  from popup blur keyup [of "''Control''"] keyup [of "''Meta''"] show ?thesis
    by simp
qed

theorem restore_closes_popup_witness:
  "translationState ((keydownListener ''Control'' (Some 1)
      (applyTranslations asciiOnly [2, 1] exampleBlocks (initialState examplePage)))
        \<lparr>activeTooltip := Some (OriginalTextTooltip (js ''Die The world''))\<rparr>) \<noteq> None \<and>
   activeTooltip (restoreOriginal ((keydownListener ''Control'' (Some 1)
      (applyTranslations asciiOnly [2, 1] exampleBlocks (initialState examplePage)))
        \<lparr>activeTooltip := Some (OriginalTextTooltip (js ''Die The world''))\<rparr>)) = None \<and>
   hoveredSentence (keyupListener ''Control'' (restoreOriginal ((keydownListener ''Control'' (Some 1)
      (applyTranslations asciiOnly [2, 1] exampleBlocks (initialState examplePage)))
        \<lparr>activeTooltip := Some (OriginalTextTooltip (js ''Die The world''))\<rparr>))) = None"
proof -
  let ?s0 = "(keydownListener ''Control'' (Some 1)
      (applyTranslations asciiOnly [2, 1] exampleBlocks (initialState examplePage)))
        \<lparr>activeTooltip := Some (OriginalTextTooltip (js ''Die The world''))\<rparr>"
  have a: "translationState ?s0 \<noteq> None"
    unfolding example_session
    by (simp add: keydownListener_def updateSentenceHoverAtPoint_def clearSentenceHover_def
          initialState_def Let_def)
  from restore_closes_popup [OF a] a show ?thesis
    by blast
qed

end
